theory Spec2Isabelle
  imports Main "HOL-Library.AList" "HOL-Library.Char_ord" "HOL-Library.List_Lexorder"
begin

section \<open>Objects\<close>

text \<open>
  A JavaScript object is an association list in the order in which \<open>for ... in\<close>,
  \<open>Object.keys\<close> and the spread operator enumerate its own properties. For property names
  that are not array indices this is the insertion order, so writing a property
  (\<open>result[key] = value\<close>) replaces the value in place when the key exists and appends the
  pair otherwise: that is \<^const>\<open>AList.update\<close>. A property read is \<^const>\<open>map_of\<close>;
  only own properties are modelled (no prototype chain).
\<close>

type_synonym 'a obj = "(string \<times> 'a) list"

text \<open>\<open>Object.assign(target, src)\<close>: the properties of \<open>src\<close> are written to \<open>target\<close> in
  the order of \<open>src\<close>.\<close>

definition obj_assign :: "'a obj \<Rightarrow> 'a obj \<Rightarrow> 'a obj" where
  "obj_assign target src = foldl (\<lambda>acc (k, v). AList.update k v acc) target src"

text \<open>The object literals \<open>{ ...a, ...b }\<close> and \<open>{ ...a, ...b, ...c }\<close>: a new object, to
  which the operands are assigned from left to right.\<close>

definition spread2 :: "'a obj \<Rightarrow> 'a obj \<Rightarrow> 'a obj" where
  "spread2 a b = obj_assign (obj_assign [] a) b"

definition spread3 :: "'a obj \<Rightarrow> 'a obj \<Rightarrow> 'a obj \<Rightarrow> 'a obj" where
  "spread3 a b c = obj_assign (obj_assign (obj_assign [] a) b) c"

text \<open>Reading a property whose type is optional: an absent key and a key bound to
  \<open>undefined\<close> both read as \<open>undefined\<close> (\<open>None\<close>).\<close>

definition get_opt :: "'a option obj \<Rightarrow> string \<Rightarrow> 'a option" where
  "get_opt ob k = (case map_of ob k of Some (Some x) \<Rightarrow> Some x | _ \<Rightarrow> None)"

section \<open>Values and configurations\<close>

text \<open>Style property values and theme tokens are opaque to the engine. Numbers are only
  ever copied, so integers stand for them.\<close>

datatype jv = JUndefined | JBool bool | JNum int | JStr string | JObj "(string \<times> jv) list"

text \<open>A variant selection, a default variant and a compound condition are typed
  \<open>StringToBoolean<keyof V[K]>\<close> and optional: a label, a boolean or \<open>undefined\<close>.\<close>

datatype vval = VUndefined | VBool bool | VStr string

type_synonym styles = "jv obj"
type_synonym slotStyles = "styles option obj"
type_synonym variantsT = "slotStyles option obj option obj"
type_synonym props = "vval obj"

text \<open>A compound variant \<open>cv\<close>, already destructured as \<open>const { css, ...conditions } = cv\<close>.\<close>

record compound =
  conditions :: props
  css :: "slotStyles option"

record config =
  slots :: "string list"
  base :: "slotStyles option"
  variants :: "variantsT option"
  defaultVariants :: "props option"
  compoundVariants :: "compound list option"

section \<open>Cache key and normalisation\<close>

text \<open>\<open>String(v)\<close> on a selection value.\<close>

fun js_String :: "vval \<Rightarrow> string" where
  "js_String VUndefined = ''undefined''"
| "js_String (VBool b) = (if b then ''true'' else ''false'')"
| "js_String (VStr s) = s"

text \<open>\<open>props[k]\<close>: \<open>undefined\<close> when the key is absent.\<close>

definition prop_get :: "props \<Rightarrow> string \<Rightarrow> vval" where
  "prop_get p k = (case map_of p k of None \<Rightarrow> VUndefined | Some v \<Rightarrow> v)"

text \<open>The loop of \<open>createCacheKey\<close> over the sorted keys.\<close>

fun cacheKey_loop :: "props \<Rightarrow> string list \<Rightarrow> string \<Rightarrow> string" where
  "cacheKey_loop p [] key = key"
| "cacheKey_loop p (k # ks) key =
     (let v = prop_get p k
      in if v \<noteq> VUndefined then cacheKey_loop p ks (key @ k @ '':'' @ js_String v @ '';'')
         else cacheKey_loop p ks key)"

definition createCacheKey :: "props option \<Rightarrow> string" where
  "createCacheKey props =
     (case props of
        None \<Rightarrow> ''{}''
      | Some p \<Rightarrow>
          (let keys = map fst p
           in if length keys = 0 then ''{}''
              else (let key = cacheKey_loop p (sort keys) ''''
                    in if key = '''' then ''{}'' else key)))"

fun normalizeVariantValue :: "vval \<Rightarrow> string" where
  "normalizeVariantValue (VBool b) = (if b then ''true'' else ''false'')"
| "normalizeVariantValue v = js_String v"

section \<open>The variant resolver\<close>

text \<open>One turn of the loop of \<open>applyVariant\<close> over the keys of the variant table.\<close>

definition applyVariant_step :: "string \<Rightarrow> props \<Rightarrow> styles \<Rightarrow> string \<times> slotStyles option obj option \<Rightarrow> styles" where
  "applyVariant_step slot p style entry =
     (case entry of (variantKey, variantConfig) \<Rightarrow>
        (case map_of p variantKey of
           None \<Rightarrow> style
         | Some value \<Rightarrow>
             if value = VUndefined then style
             else (case variantConfig of
                     None \<Rightarrow> style
                   | Some vc \<Rightarrow>
                       (case get_opt vc (normalizeVariantValue value) of
                          None \<Rightarrow> style
                        | Some forValue \<Rightarrow>
                            (case get_opt forValue slot of
                               None \<Rightarrow> style
                             | Some styleForValue \<Rightarrow> spread2 style styleForValue)))))"

definition applyVariant :: "string \<Rightarrow> variantsT \<Rightarrow> props \<Rightarrow> styles" where
  "applyVariant slot vs p = foldl (applyVariant_step slot p) [] vs"

text \<open>The inner loop of \<open>applyCompound\<close>: \<open>isMatch\<close> after the conditions were examined in
  order, stopping at the first mismatch.\<close>

fun isMatch :: "props \<Rightarrow> props \<Rightarrow> bool" where
  "isMatch [] p = True"
| "isMatch ((condKey, condValue) # rest) p =
     (if condKey = ''css'' then isMatch rest p
      else if normalizeVariantValue condValue \<noteq> normalizeVariantValue (prop_get p condKey)
           then False
           else isMatch rest p)"

definition applyCompound_step :: "string \<Rightarrow> props \<Rightarrow> styles \<Rightarrow> compound \<Rightarrow> styles" where
  "applyCompound_step slot p style cv =
     (if isMatch (conditions cv) p
      then (case css cv of
              None \<Rightarrow> style
            | Some c \<Rightarrow> (case get_opt c slot of
                           None \<Rightarrow> style
                         | Some s \<Rightarrow> spread2 style s))
      else style)"

definition applyCompound :: "string \<Rightarrow> compound list \<Rightarrow> props \<Rightarrow> styles" where
  "applyCompound slot cvs p = foldl (applyCompound_step slot p) [] cvs"

definition computeSlotStyles :: "string \<Rightarrow> slotStyles \<Rightarrow> variantsT \<Rightarrow> compound list \<Rightarrow> props \<Rightarrow> styles" where
  "computeSlotStyles slot b vs cvs p =
     (let baseStyle = (case get_opt b slot of None \<Rightarrow> [] | Some s \<Rightarrow> s);
          variantStyle = applyVariant slot vs p;
          compoundStyle = applyCompound slot cvs p
      in spread3 baseStyle variantStyle compoundStyle)"

section \<open>Utility expansion\<close>

text \<open>The macro table \<open>utils\<close>: \<open>key in utils\<close> is \<open>utils key \<noteq> None\<close>.\<close>

type_synonym utilsConfig = "string \<Rightarrow> (jv \<Rightarrow> styles) option"

definition expandUtils_step :: "utilsConfig \<Rightarrow> styles \<Rightarrow> string \<times> jv \<Rightarrow> styles" where
  "expandUtils_step utils result entry =
     (case entry of (key, value) \<Rightarrow>
        (case utils key of
           Some utilFn \<Rightarrow> obj_assign result (utilFn value)
         | None \<Rightarrow> AList.update key value result))"

definition expandUtils :: "styles option \<Rightarrow> utilsConfig \<Rightarrow> styles" where
  "expandUtils style utils =
     (case style of None \<Rightarrow> [] | Some s \<Rightarrow> foldl (expandUtils_step utils) [] s)"

text \<open>The loop \<open>for (const slot in x) result[slot] = expandUtils(x[slot], utils)\<close>, which
  \<open>expandBaseUtils\<close>, \<open>expandVariantsUtils\<close> and \<open>expandCompoundUtils\<close> each contain.\<close>

definition expandSlotStyles :: "slotStyles \<Rightarrow> utilsConfig \<Rightarrow> slotStyles" where
  "expandSlotStyles ss utils =
     foldl (\<lambda>result (slot, style). AList.update slot (Some (expandUtils style utils)) result) [] ss"

definition expandBaseUtils :: "slotStyles option \<Rightarrow> utilsConfig \<Rightarrow> slotStyles" where
  "expandBaseUtils b utils = (case b of None \<Rightarrow> [] | Some ss \<Rightarrow> expandSlotStyles ss utils)"

definition expandVariantValues :: "slotStyles option obj \<Rightarrow> utilsConfig \<Rightarrow> slotStyles option obj" where
  "expandVariantValues variantValues utils =
     foldl (\<lambda>result (valueKey, forValue).
              case forValue of
                None \<Rightarrow> result
              | Some ss \<Rightarrow> AList.update valueKey (Some (expandSlotStyles ss utils)) result)
       [] variantValues"

definition expandVariantsUtils :: "variantsT option \<Rightarrow> utilsConfig \<Rightarrow> variantsT" where
  "expandVariantsUtils vs utils =
     (case vs of
        None \<Rightarrow> []
      | Some v \<Rightarrow>
          foldl (\<lambda>result (variantKey, variantValues).
                   case variantValues of
                     None \<Rightarrow> result
                   | Some vv \<Rightarrow> AList.update variantKey (Some (expandVariantValues vv utils)) result)
            [] v)"

definition expandCompoundUtils :: "compound list option \<Rightarrow> utilsConfig \<Rightarrow> compound list" where
  "expandCompoundUtils cvs utils =
     (case cvs of
        None \<Rightarrow> []
      | Some l \<Rightarrow>
          map (\<lambda>cv. \<lparr>conditions = obj_assign [] (conditions cv),
                     css = Some (case css cv of None \<Rightarrow> [] | Some c \<Rightarrow> expandSlotStyles c utils)\<rparr>) l)"

section \<open>The theme\<close>

text \<open>The default token tables come from \<open>../tokens/default-tokens\<close>, a static data set:
  they are a parameter of the model.\<close>

record defaultTokensT =
  palette :: "jv obj"
  spacing :: "jv obj"
  fontSizes :: "jv obj"
  radii :: "jv obj"
  shadows :: "jv obj"
  zIndex :: "jv obj"
  opacity :: "jv obj"
  lineHeights :: "jv obj"
  fontWeights :: "jv obj"
  letterSpacing :: "jv obj"
  borderWidths :: "jv obj"
  durations :: "jv obj"

record colorSchemeConfig =
  light :: "jv obj"
  dark :: "jv obj option"

record options =
  theme :: "jv obj option"
  optUtils :: "utilsConfig option"

record nva =
  resolvedTheme :: "jv obj"
  colorScheme :: colorSchemeConfig
  inputUtils :: utilsConfig

text \<open>\<open>inputTheme?.key\<close>.\<close>

definition themeField :: "jv obj option \<Rightarrow> string \<Rightarrow> jv" where
  "themeField inputTheme key =
     (case inputTheme of
        None \<Rightarrow> JUndefined
      | Some t \<Rightarrow> (case map_of t key of None \<Rightarrow> JUndefined | Some v \<Rightarrow> v))"

text \<open>The properties that spreading a value contributes. The theme type makes every
  token category and colour table an object or \<open>undefined\<close>; JavaScript also spreads
  nothing for a boolean or a number. A string in such a position is excluded by the type
  and not modelled.\<close>

definition spreadOf :: "jv \<Rightarrow> jv obj" where
  "spreadOf v = (case v of JObj ob \<Rightarrow> ob | _ \<Rightarrow> [])"

definition truthy :: "jv \<Rightarrow> bool" where
  "truthy v = (case v of JUndefined \<Rightarrow> False | JBool b \<Rightarrow> b | JNum n \<Rightarrow> n \<noteq> 0
               | JStr s \<Rightarrow> s \<noteq> [] | JObj _ \<Rightarrow> True)"

definition isStructuredColors :: "jv \<Rightarrow> bool" where
  "isStructuredColors c = (case c of JObj ob \<Rightarrow> ''light'' \<in> fst ` set ob | _ \<Rightarrow> False)"

definition extractStandaloneColors :: "jv \<Rightarrow> jv obj" where
  "extractStandaloneColors c =
     (case c of
        JObj ob \<Rightarrow>
          foldl (\<lambda>standalone (key, v).
                   if key \<noteq> ''light'' \<and> key \<noteq> ''dark'' \<and> (case v of JStr _ \<Rightarrow> True | _ \<Rightarrow> False)
                   then AList.update key v standalone else standalone)
            [] ob
      | _ \<Rightarrow> [])"

text \<open>\<open>userColors\<close> and \<open>colorSchemeConfig\<close>, from the colours of the input theme.\<close>

definition userColorsOf :: "jv obj option \<Rightarrow> jv obj" where
  "userColorsOf inputTheme =
     (let c = themeField inputTheme ''colors''
      in if truthy c
         then (if isStructuredColors c
               then spread2 (spreadOf (themeField (Some (spreadOf c)) ''light'')) (extractStandaloneColors c)
               else spreadOf c)
         else [])"

definition colorSchemeOf :: "jv obj option \<Rightarrow> colorSchemeConfig" where
  "colorSchemeOf inputTheme =
     (let c = themeField inputTheme ''colors''
      in if truthy c
         then (if isStructuredColors c
               then \<lparr>light = spread2 (spreadOf (themeField (Some (spreadOf c)) ''light'')) (extractStandaloneColors c),
                     dark = (let dk = themeField (Some (spreadOf c)) ''dark''
                             in if truthy dk then Some (spread2 (spreadOf dk) (extractStandaloneColors c))
                                else None)\<rparr>
               else \<lparr>light = spreadOf c, dark = Some (spreadOf c)\<rparr>)
         else \<lparr>light = [], dark = None\<rparr>)"

definition knownThemeKeys :: "string list" where
  "knownThemeKeys = [''colors'', ''spacing'', ''fontSizes'', ''radii'', ''shadows'', ''zIndex'',
     ''opacity'', ''lineHeights'', ''fontWeights'', ''letterSpacing'', ''borderWidths'', ''durations'']"

text \<open>\<open>{ ...defaultTable, ...(inputTheme?.key ?? {}) }\<close>.\<close>

definition mergedCategory :: "jv obj \<Rightarrow> jv obj option \<Rightarrow> string \<Rightarrow> jv" where
  "mergedCategory defaultTable inputTheme key = JObj (spread2 defaultTable (spreadOf (themeField inputTheme key)))"

text \<open>The \<open>reduce\<close> over \<open>Object.keys(inputTheme ?? {})\<close> that collects the custom tokens.\<close>

definition customTokens :: "jv obj option \<Rightarrow> jv obj" where
  "customTokens inputTheme =
     foldl (\<lambda>acc key. if key \<notin> set knownThemeKeys then AList.update key (themeField inputTheme key) acc else acc)
       [] (case inputTheme of None \<Rightarrow> [] | Some t \<Rightarrow> map fst t)"

definition resolveTheme :: "defaultTokensT \<Rightarrow> jv obj option \<Rightarrow> jv obj" where
  "resolveTheme defaultTokens inputTheme =
     obj_assign
       [(''colors'', JObj (spread2 (palette defaultTokens) (userColorsOf inputTheme))),
        (''spacing'', mergedCategory (spacing defaultTokens) inputTheme ''spacing''),
        (''fontSizes'', mergedCategory (fontSizes defaultTokens) inputTheme ''fontSizes''),
        (''radii'', mergedCategory (radii defaultTokens) inputTheme ''radii''),
        (''shadows'', mergedCategory (shadows defaultTokens) inputTheme ''shadows''),
        (''zIndex'', mergedCategory (zIndex defaultTokens) inputTheme ''zIndex''),
        (''opacity'', mergedCategory (opacity defaultTokens) inputTheme ''opacity''),
        (''lineHeights'', mergedCategory (lineHeights defaultTokens) inputTheme ''lineHeights''),
        (''fontWeights'', mergedCategory (fontWeights defaultTokens) inputTheme ''fontWeights''),
        (''letterSpacing'', mergedCategory (letterSpacing defaultTokens) inputTheme ''letterSpacing''),
        (''borderWidths'', mergedCategory (borderWidths defaultTokens) inputTheme ''borderWidths''),
        (''durations'', mergedCategory (durations defaultTokens) inputTheme ''durations'')]
       (customTokens inputTheme)"

definition createNVA :: "defaultTokensT \<Rightarrow> options option \<Rightarrow> nva" where
  "createNVA defaultTokens opts =
     (let inputTheme = (case opts of None \<Rightarrow> None | Some op \<Rightarrow> theme op);
          inputUtils = (case opts of None \<Rightarrow> Map.empty
                        | Some op \<Rightarrow> (case optUtils op of None \<Rightarrow> Map.empty | Some u \<Rightarrow> u))
      in \<lparr>resolvedTheme = resolveTheme defaultTokens inputTheme,
          colorScheme = colorSchemeOf inputTheme,
          inputUtils = inputUtils\<rparr>)"

section \<open>Declarations, caches and \<open>computeStyles\<close>\<close>

text \<open>The argument of \<open>styled\<close> of \<open>createNVA\<close>: a configuration, or a factory from the
  resolved theme (\<open>defineConfig\<close> is the identity and is left out).\<close>

datatype styledArg = Static config | Factory "jv obj \<Rightarrow> config"

text \<open>A colour override is an object: an identity, which keys the \<open>WeakMap\<close>, and its
  contents.\<close>

record overrideObj =
  oid :: nat
  colors :: "jv obj"

text \<open>The argument of \<open>computeStyles\<close>, destructured as
  \<open>const { theme: themeOverride, ...variantProps } = props\<close>; \<open>variantProps\<close> has no key
  \<open>theme\<close>.\<close>

record nvaProps =
  themeOverride :: "overrideObj option"
  variantProps :: props

text \<open>What the closure \<open>computeStyles\<close> returned by \<open>styled\<close> captures. \<open>configRef\<close> is
  the identity of the object \<open>{ id: Symbol() }\<close>.\<close>

record decl =
  owner :: nva
  configOrFactory :: styledArg
  expandedBase :: slotStyles
  expandedVariants :: variantsT
  frozenCompoundVariants :: "compound list"
  frozenSlots :: "string list"
  declDefaults :: props
  configRef :: nat

text \<open>The closure of the stand-alone \<open>styled\<close> of the module.\<close>

record plainDecl =
  plainBase :: slotStyles
  plainVariants :: variantsT
  plainCompounds :: "compound list"
  plainSlots :: "string list"
  plainDefaults :: props
  plainRef :: nat

type_synonym cacheMap = "string \<Rightarrow> nat option"

text \<open>
  The mutable state. A result object lives in \<open>heap\<close> and is known by its index there, so
  two results are the same object exactly when their references are equal. \<open>nextRef\<close>
  numbers the \<open>configRef\<close> objects of both \<open>styled\<close> functions. \<open>styleCache\<close> and
  \<open>primitiveCache\<close> belong to the module. \<open>instanceCache\<close> is keyed by \<open>configRef\<close>; each
  \<open>createNVA\<close> instance has its own, and since no two declarations share a \<open>configRef\<close>,
  one map stands for them all. \<open>themeOverrideCache\<close> is the \<open>WeakMap\<close> of each declaration:
  it maps the \<open>configRef\<close> of the declaration and the identity of an override to a cache.
\<close>

record state =
  heap :: "styles obj list"
  nextRef :: nat
  styleCache :: "nat \<Rightarrow> cacheMap option"
  primitiveCache :: cacheMap
  instanceCache :: "nat \<Rightarrow> cacheMap option"
  themeOverrideCache :: "nat \<Rightarrow> nat \<Rightarrow> cacheMap option"

definition init_state :: state where
  "init_state = \<lparr>heap = [], nextRef = 0, styleCache = (\<lambda>_. None), primitiveCache = (\<lambda>_. None),
     instanceCache = (\<lambda>_. None), themeOverrideCache = (\<lambda>_ _. None)\<rparr>"

text \<open>\<open>cache?.has(key)\<close> followed by \<open>cache.get(key)\<close>.\<close>

definition cache_lookup :: "cacheMap option \<Rightarrow> string \<Rightarrow> nat option" where
  "cache_lookup cache key = (case cache of None \<Rightarrow> None | Some m \<Rightarrow> m key)"

text \<open>\<open>if (!cache) cache = new Map(); cache.set(key, result)\<close>.\<close>

definition cache_store :: "cacheMap option \<Rightarrow> string \<Rightarrow> nat \<Rightarrow> cacheMap" where
  "cache_store cache key r = (case cache of None \<Rightarrow> Map.empty | Some m \<Rightarrow> m)(key \<mapsto> r)"

definition alloc :: "styles obj \<Rightarrow> state \<Rightarrow> nat \<times> state" where
  "alloc ob st = (length (heap st), st\<lparr>heap := heap st @ [ob]\<rparr>)"

text \<open>The resolution of the props against the defaults, which \<open>computeStyles\<close> has inline;
  \<open>keep\<close> is the extra test on the key that the override path makes.\<close>

definition resolvePropsWith :: "(string \<Rightarrow> bool) \<Rightarrow> props \<Rightarrow> props \<Rightarrow> props" where
  "resolvePropsWith keep dv vp =
     foldl (\<lambda>resolvedProps (key, value).
              if value \<noteq> VUndefined \<and> keep key then AList.update key value resolvedProps
              else resolvedProps)
       (obj_assign [] dv) vp"

definition resolveProps :: "props \<Rightarrow> props \<Rightarrow> props" where
  "resolveProps dv vp = resolvePropsWith (\<lambda>key. True) dv vp"

text \<open>The loop over \<open>frozenSlots\<close> that fills \<open>result\<close>.\<close>

definition computeResult :: "string list \<Rightarrow> slotStyles \<Rightarrow> variantsT \<Rightarrow> compound list \<Rightarrow> props \<Rightarrow> styles obj" where
  "computeResult ss b vs cvs rp =
     foldl (\<lambda>result slot. AList.update slot (computeSlotStyles slot b vs cvs rp) result) [] ss"

definition styled :: "nva \<Rightarrow> styledArg \<Rightarrow> state \<Rightarrow> decl \<times> state" where
  "styled inst arg st =
     (let configWithUtils = (case arg of Factory f \<Rightarrow> f (resolvedTheme inst) | Static c \<Rightarrow> c)
      in (\<lparr>owner = inst,
           configOrFactory = arg,
           expandedBase = expandBaseUtils (base configWithUtils) (inputUtils inst),
           expandedVariants = expandVariantsUtils (variants configWithUtils) (inputUtils inst),
           frozenCompoundVariants = expandCompoundUtils (compoundVariants configWithUtils) (inputUtils inst),
           frozenSlots = slots configWithUtils,
           declDefaults = (case defaultVariants configWithUtils of None \<Rightarrow> [] | Some dv \<Rightarrow> dv),
           configRef = nextRef st\<rparr>,
          st\<lparr>nextRef := Suc (nextRef st),
             themeOverrideCache := (themeOverrideCache st)(nextRef st := (\<lambda>_. None))\<rparr>))"

text \<open>What the override path computes on a cache miss: the factory on the theme whose
  colours are the override, expanded and resolved.\<close>

definition overrideResult :: "decl \<Rightarrow> (jv obj \<Rightarrow> config) \<Rightarrow> overrideObj \<Rightarrow> props \<Rightarrow> styles obj" where
  "overrideResult d f ov vp =
     (let overriddenTheme = AList.update ''colors'' (JObj (colors ov)) (obj_assign [] (resolvedTheme (owner d)));
          recomputedConfig = f overriddenTheme;
          recomputedBase = expandBaseUtils (base recomputedConfig) (inputUtils (owner d));
          recomputedVariants = expandVariantsUtils (variants recomputedConfig) (inputUtils (owner d));
          recomputedCompoundVariants = expandCompoundUtils (compoundVariants recomputedConfig) (inputUtils (owner d));
          resolvedProps = resolvePropsWith (\<lambda>key. key \<noteq> ''theme'')
                            (case defaultVariants recomputedConfig of None \<Rightarrow> [] | Some dv \<Rightarrow> dv) vp
      in computeResult (frozenSlots d) recomputedBase recomputedVariants recomputedCompoundVariants resolvedProps)"

definition computeStyles_override :: "decl \<Rightarrow> (jv obj \<Rightarrow> config) \<Rightarrow> overrideObj \<Rightarrow> props \<Rightarrow> state \<Rightarrow> nat \<times> state" where
  "computeStyles_override d f ov vp st =
     (let cacheKey = createCacheKey (Some vp);
          themeCache = themeOverrideCache st (configRef d) (oid ov)
      in case cache_lookup themeCache cacheKey of
           Some cached \<Rightarrow> (cached, st)
         | None \<Rightarrow>
             (let (r, st1) = alloc (overrideResult d f ov vp) st
              in (r, st1\<lparr>themeOverrideCache :=
                          (themeOverrideCache st1)(configRef d :=
                             (themeOverrideCache st1 (configRef d))(oid ov \<mapsto> cache_store themeCache cacheKey r))\<rparr>)))"

text \<open>What the default path computes on a cache miss.\<close>

definition defaultResult :: "decl \<Rightarrow> props \<Rightarrow> styles obj" where
  "defaultResult d vp =
     computeResult (frozenSlots d) (expandedBase d) (expandedVariants d) (frozenCompoundVariants d)
       (resolveProps (declDefaults d) vp)"

definition computeStyles_default :: "decl \<Rightarrow> props \<Rightarrow> state \<Rightarrow> nat \<times> state" where
  "computeStyles_default d vp st =
     (let cacheKey = createCacheKey (Some vp);
          configCache = instanceCache st (configRef d)
      in case cache_lookup configCache cacheKey of
           Some cached \<Rightarrow> (cached, st)
         | None \<Rightarrow>
             (let (r, st1) = alloc (defaultResult d vp) st
              in (r, st1\<lparr>instanceCache :=
                          (instanceCache st1)(configRef d \<mapsto> cache_store configCache cacheKey r)\<rparr>)))"

definition computeStyles :: "decl \<Rightarrow> nvaProps option \<Rightarrow> state \<Rightarrow> nat \<times> state" where
  "computeStyles d props st =
     (let ov = (case props of None \<Rightarrow> None | Some p \<Rightarrow> themeOverride p);
          vp = (case props of None \<Rightarrow> [] | Some p \<Rightarrow> variantProps p)
      in case ov of
           None \<Rightarrow> computeStyles_default d vp st
         | Some ovr \<Rightarrow>
             (case configOrFactory d of
                Factory f \<Rightarrow> computeStyles_override d f ovr vp st
              | Static c \<Rightarrow> computeStyles_default d vp st))"

subsection \<open>The stand-alone \<open>styled\<close>\<close>

definition styledPlain :: "config \<Rightarrow> state \<Rightarrow> plainDecl \<times> state" where
  "styledPlain c st =
     (\<lparr>plainBase = (case base c of None \<Rightarrow> [] | Some b \<Rightarrow> b),
       plainVariants = (case variants c of None \<Rightarrow> [] | Some v \<Rightarrow> v),
       plainCompounds = (case compoundVariants c of None \<Rightarrow> [] | Some l \<Rightarrow> l),
       plainSlots = slots c,
       plainDefaults = (case defaultVariants c of None \<Rightarrow> [] | Some dv \<Rightarrow> dv),
       plainRef = nextRef st\<rparr>,
      st\<lparr>nextRef := Suc (nextRef st)\<rparr>)"

definition computeStylesPlain :: "plainDecl \<Rightarrow> props option \<Rightarrow> state \<Rightarrow> nat \<times> state" where
  "computeStylesPlain pd props st =
     (let cacheKey = createCacheKey props;
          configCache = styleCache st (plainRef pd)
      in case cache_lookup configCache cacheKey of
           Some cached \<Rightarrow> (cached, st)
         | None \<Rightarrow>
             (let resolvedProps = resolveProps (plainDefaults pd) (case props of None \<Rightarrow> [] | Some p \<Rightarrow> p);
                  (r, st1) = alloc (computeResult (plainSlots pd) (plainBase pd) (plainVariants pd)
                                      (plainCompounds pd) resolvedProps) st
              in (r, st1\<lparr>styleCache :=
                          (styleCache st1)(plainRef pd \<mapsto> cache_store configCache cacheKey r)\<rparr>)))"

definition clearStyleCache :: "state \<Rightarrow> state" where
  "clearStyleCache st = st\<lparr>primitiveCache := Map.empty\<rparr>"

subsection \<open>Executions\<close>

text \<open>One operation of a client on the library, with the list of the declarations made
  through \<open>createNVA\<close> so far.\<close>

inductive sys_step :: "state \<times> decl list \<Rightarrow> state \<times> decl list \<Rightarrow> bool" where
  step_styled: "styled inst arg st = (d, st') \<Longrightarrow> sys_step (st, ds) (st', d # ds)"
| step_call: "d \<in> set ds \<Longrightarrow> computeStyles d props st = (r, st') \<Longrightarrow> sys_step (st, ds) (st', ds)"
| step_styledPlain: "styledPlain c st = (pd, st') \<Longrightarrow> sys_step (st, ds) (st', ds)"
| step_callPlain: "computeStylesPlain pd pprops st = (r, st') \<Longrightarrow> sys_step (st, ds) (st', ds)"
| step_clear: "sys_step (st, ds) (clearStyleCache st, ds)"

definition reachable :: "state \<times> decl list \<Rightarrow> bool" where
  "reachable c = sys_step\<^sup>*\<^sup>* (init_state, []) c"

section \<open>The resolver as the specification words it\<close>

text \<open>
  The specification describes one accumulator per slot: it starts from \<open>base[slot]\<close>, takes
  the style of each axis of the variant table whose selected label has a style for the
  slot, in the key order of the table, and then the \<open>css[slot]\<close> of each compound variant
  whose conditions all hold, in declaration order.
\<close>

definition variantContribution :: "string \<Rightarrow> props \<Rightarrow> string \<times> slotStyles option obj option \<Rightarrow> styles option" where
  "variantContribution slot sel entry =
     (case entry of (axis, table) \<Rightarrow>
        (case map_of sel axis of
           None \<Rightarrow> None
         | Some VUndefined \<Rightarrow> None
         | Some selected \<Rightarrow>
             (case table of
                None \<Rightarrow> None
              | Some labels \<Rightarrow>
                  (case get_opt labels (normalizeVariantValue selected) of
                     None \<Rightarrow> None
                   | Some perSlot \<Rightarrow> get_opt perSlot slot))))"

definition compoundContribution :: "string \<Rightarrow> props \<Rightarrow> compound \<Rightarrow> styles option" where
  "compoundContribution slot sel cv =
     (if list_all (\<lambda>(axis, v). normalizeVariantValue v = normalizeVariantValue (prop_get sel axis))
           (conditions cv)
      then (case css cv of None \<Rightarrow> None | Some c \<Rightarrow> get_opt c slot)
      else None)"

definition shallowMerge :: "styles \<Rightarrow> styles option \<Rightarrow> styles" where
  "shallowMerge acc contribution = (case contribution of None \<Rightarrow> acc | Some s \<Rightarrow> spread2 acc s)"

definition computeSlotStyle_spec :: "string \<Rightarrow> slotStyles \<Rightarrow> variantsT \<Rightarrow> compound list \<Rightarrow> props \<Rightarrow> styles" where
  "computeSlotStyle_spec slot b vs cvs sel =
     (let acc0 = shallowMerge [] (get_opt b slot);
          acc1 = foldl (\<lambda>acc axis. shallowMerge acc (variantContribution slot sel axis)) acc0 vs;
          acc2 = foldl (\<lambda>acc cv. shallowMerge acc (compoundContribution slot sel cv)) acc1 cvs
      in acc2)"

text \<open>The styles that a list of entries contributes, one after the other.\<close>

definition contributions :: "('e \<Rightarrow> styles option) \<Rightarrow> 'e list \<Rightarrow> styles" where
  "contributions g es = concat (map (\<lambda>e. case g e of None \<Rightarrow> [] | Some s \<Rightarrow> s) es)"

section \<open>Expansion as the specification words it\<close>

text \<open>What one entry of the input becomes: the properties that the macro returns for the
  value, when the key names a macro, and the entry itself otherwise.\<close>

definition expandEntry :: "utilsConfig \<Rightarrow> string \<times> jv \<Rightarrow> styles" where
  "expandEntry utils entry =
     (case entry of (key, value) \<Rightarrow>
        (case utils key of Some macro \<Rightarrow> macro value | None \<Rightarrow> [(key, value)]))"

section \<open>The token categories as the specification names them\<close>

definition defaultTable :: "defaultTokensT \<Rightarrow> string \<Rightarrow> jv obj option" where
  "defaultTable defaultTokens category =
     map_of [(''spacing'', spacing defaultTokens), (''fontSizes'', fontSizes defaultTokens),
             (''radii'', radii defaultTokens), (''shadows'', shadows defaultTokens),
             (''zIndex'', zIndex defaultTokens), (''opacity'', opacity defaultTokens),
             (''lineHeights'', lineHeights defaultTokens), (''fontWeights'', fontWeights defaultTokens),
             (''letterSpacing'', letterSpacing defaultTokens), (''borderWidths'', borderWidths defaultTokens),
             (''durations'', durations defaultTokens)] category"

text \<open>The table that the user gave for a category; empty when there is none.\<close>

definition userTable :: "jv obj option \<Rightarrow> string \<Rightarrow> jv obj" where
  "userTable inputTheme category = spreadOf (themeField inputTheme category)"

section \<open>Selections as the caller observes them\<close>

text \<open>The pairs of a selection whose value is not \<open>undefined\<close>, and their labels.\<close>

definition definedPart :: "props \<Rightarrow> string \<Rightarrow> vval option" where
  "definedPart p k = (case map_of p k of None \<Rightarrow> None | Some v \<Rightarrow> if v = VUndefined then None else Some v)"

definition labelPart :: "props \<Rightarrow> string \<Rightarrow> string option" where
  "labelPart p k = map_option js_String (definedPart p k)"

text \<open>The cache key as the specification words it: the axis names in lexicographic order,
  each joined with its stringified value; \<open>{}\<close> when no axis has a value.\<close>

definition renderKey :: "(string \<Rightarrow> string option) \<Rightarrow> string" where
  "renderKey labels =
     (let key = concat (map (\<lambda>k. k @ '':'' @ the (labels k) @ '';'') (sorted_list_of_set (dom labels)))
      in if key = [] then ''{}'' else key)"

text \<open>\<open>isFactory\<close>: whether the argument of \<open>styled\<close> was a function.\<close>

definition isFactory :: "decl \<Rightarrow> bool" where
  "isFactory d = (case configOrFactory d of Factory f \<Rightarrow> True | Static c \<Rightarrow> False)"

section \<open>Example data\<close>

text \<open>The scenarios of the specification: a button with a size axis, a boolean axis and a
  compound variant, declared through an engine with the macro \<open>px\<close>.\<close>

definition exampleConfig :: config where
  "exampleConfig =
     \<lparr>slots = [''root''],
      base = Some [(''root'', Some [(''padding'', JNum 16)])],
      variants = Some
        [(''size'', Some [(''sm'', Some [(''root'', Some [(''padding'', JNum 8)])]),
                          (''lg'', Some [(''root'', Some [(''padding'', JNum 24)])])]),
         (''square'', Some [(''true'', Some [(''root'', Some [(''width'', JNum 48), (''height'', JNum 48)])])])],
      defaultVariants = Some [(''size'', VStr ''sm'')],
      compoundVariants = Some
        [\<lparr>conditions = [(''size'', VStr ''lg''), (''square'', VBool True)],
          css = Some [(''root'', Some [(''width'', JNum 64), (''height'', JNum 64)])]\<rparr>]\<rparr>"

definition exampleNva :: nva where
  "exampleNva =
     \<lparr>resolvedTheme = [(''colors'', JObj [(''primary'', JStr ''#000'')])],
      colorScheme = \<lparr>light = [(''primary'', JStr ''#000'')], dark = Some [(''primary'', JStr ''#000'')]\<rparr>,
      inputUtils = Map.empty(''px'' \<mapsto> (\<lambda>v. [(''paddingLeft'', v), (''paddingRight'', v)]))\<rparr>"

definition exampleDecl :: decl where
  "exampleDecl = fst (styled exampleNva (Static exampleConfig) init_state)"

definition exampleState :: state where
  "exampleState = snd (styled exampleNva (Static exampleConfig) init_state)"

text \<open>A declaration by a factory that reads one colour of the theme.\<close>

definition exampleFactory :: "jv obj \<Rightarrow> config" where
  "exampleFactory t =
     \<lparr>slots = [''root''],
      base = Some [(''root'', Some [(''color'',
                (case map_of t ''colors'' of
                   Some (JObj c) \<Rightarrow> (case map_of c ''primary'' of Some v \<Rightarrow> v | None \<Rightarrow> JUndefined)
                 | _ \<Rightarrow> JUndefined))])],
      variants = None, defaultVariants = None, compoundVariants = None\<rparr>"

definition factoryDecl :: decl where
  "factoryDecl = fst (styled exampleNva (Factory exampleFactory) init_state)"

definition factoryState :: state where
  "factoryState = snd (styled exampleNva (Factory exampleFactory) init_state)"

text \<open>A declaration with a label that contains the separators of the cache key.\<close>

definition collisionConfig :: config where
  "collisionConfig =
     \<lparr>slots = [''root''],
      base = None,
      variants = Some
        [(''a'', Some [(''x'', Some [(''root'', Some [(''padding'', JNum 1)])]),
                       (''x;b:y'', Some [(''root'', Some [(''padding'', JNum 2)])])]),
         (''b'', Some [(''y'', Some [(''root'', Some [(''margin'', JNum 3)])])])],
      defaultVariants = None, compoundVariants = None\<rparr>"

definition collisionDecl :: decl where
  "collisionDecl = fst (styled exampleNva (Static collisionConfig) init_state)"

definition collisionState :: state where
  "collisionState = snd (styled exampleNva (Static collisionConfig) init_state)"

section \<open>Well-formed executions\<close>

text \<open>A result object has exactly the slots of its declaration as keys.\<close>

definition slotKeys :: "string list \<Rightarrow> styles obj \<Rightarrow> bool" where
  "slotKeys ss ob \<longleftrightarrow> distinct (map fst ob) \<and> fst ` set ob = set ss"

text \<open>What every execution maintains: the declarations made so far have distinct
  references below \<open>nextRef\<close>, no cache exists yet for a reference to come, and every
  reference cached for a declaration points to a result object with the declaration's
  slots.\<close>

definition wf_sys :: "state \<times> decl list \<Rightarrow> bool" where
  "wf_sys c =
     (case c of (st, ds) \<Rightarrow>
        (\<forall>d\<in>set ds. configRef d < nextRef st) \<and>
        (\<forall>i. nextRef st \<le> i \<longrightarrow> instanceCache st i = None) \<and>
        (\<forall>d\<in>set ds. \<forall>d'\<in>set ds. configRef d = configRef d' \<longrightarrow> frozenSlots d = frozenSlots d') \<and>
        (\<forall>d\<in>set ds. \<forall>key r. cache_lookup (instanceCache st (configRef d)) key = Some r \<longrightarrow>
             r < length (heap st) \<and> slotKeys (frozenSlots d) (heap st ! r)) \<and>
        (\<forall>d\<in>set ds. \<forall>j key r. cache_lookup (themeOverrideCache st (configRef d) j) key = Some r \<longrightarrow>
             r < length (heap st) \<and> slotKeys (frozenSlots d) (heap st ! r)))"

section \<open>Object algebra\<close>

lemma assign_append: "obj_assign a (b @ c) = obj_assign (obj_assign a b) c"
  by (simp add: obj_assign_def)

lemma assign_Nil [simp]: "obj_assign a [] = a"
  by (simp add: obj_assign_def)

lemma assign_Cons: "obj_assign a ((k, v) # b) = obj_assign (AList.update k v a) b"
  by (simp add: obj_assign_def)

lemma assign_snoc: "obj_assign a (b @ [(k, v)]) = AList.update k v (obj_assign a b)"
  by (simp add: obj_assign_def)

lemma keys_assign: "fst ` set (obj_assign a b) = fst ` set a \<union> fst ` set b"
proof (induction b arbitrary: a)
  case Nil show ?case by simp
next
  case (Cons e b)
  obtain k v where e: "e = (k, v)" by (cases e)
  show ?case unfolding e assign_Cons Cons.IH by (auto simp: dom_update)
qed

lemma distinct_assign: "distinct (map fst a) \<Longrightarrow> distinct (map fst (obj_assign a b))"
proof (induction b arbitrary: a)
  case Nil then show ?case by simp
next
  case (Cons e b)
  obtain k v where e: "e = (k, v)" by (cases e)
  show ?case unfolding e assign_Cons using Cons by (simp add: distinct_update)
qed

lemma update_fresh: "k \<notin> fst ` set al \<Longrightarrow> AList.update k v al = al @ [(k, v)]"
  by (induction al) auto

lemma update_twice: "AList.update k v (AList.update k w al) = AList.update k v al"
  by (induction al) auto

lemma update_swap_present:
  "k \<noteq> k' \<Longrightarrow> k \<in> fst ` set al \<Longrightarrow>
   AList.update k v (AList.update k' v' al) = AList.update k' v' (AList.update k v al)"
  by (induction al) auto

text \<open>Writing a key that the target already has commutes with assigning other keys.\<close>

lemma update_assign_present:
  "k \<notin> fst ` set X \<Longrightarrow> k \<in> fst ` set Y \<Longrightarrow>
   AList.update k v (obj_assign Y X) = obj_assign (AList.update k v Y) X"
proof (induction X arbitrary: Y)
  case Nil show ?case by simp
next
  case (Cons e X)
  obtain k' w where e: "e = (k', w)" by (cases e)
  from Cons.prems e have ne: "k \<noteq> k'" and nX: "k \<notin> fst ` set X" by auto
  have inY: "k \<in> fst ` set (AList.update k' w Y)" using Cons.prems(2) by (simp add: dom_update)
  show ?case unfolding e assign_Cons
    using Cons.IH[OF nX inY] update_swap_present[OF ne Cons.prems(2)] by simp
qed

lemma assign_update_src:
  "distinct (map fst X) \<Longrightarrow> obj_assign a (AList.update k v X) = AList.update k v (obj_assign a X)"
proof (induction X arbitrary: a)
  case Nil show ?case by (simp add: assign_Cons)
next
  case (Cons e X)
  obtain k' w where e: "e = (k', w)" by (cases e)
  show ?case
  proof (cases "k = k'")
    case True
    have nX: "k \<notin> fst ` set X" using Cons.prems e True by auto
    have inY: "k \<in> fst ` set (AList.update k w a)" by (simp add: dom_update)
    show ?thesis unfolding e using True update_assign_present[OF nX inY, of v]
      by (simp add: assign_Cons update_twice)
  next
    case False
    have d: "distinct (map fst X)" using Cons.prems by simp
    show ?thesis unfolding e using False Cons.IH[OF d] by (simp add: assign_Cons)
  qed
qed

text \<open>Assigning an object that was itself built by assignment is assigning its parts in
  turn.\<close>

lemma assign_assign:
  "distinct (map fst c) \<Longrightarrow> obj_assign a (obj_assign c b) = obj_assign (obj_assign a c) b"
proof (induction b rule: rev_induct)
  case Nil show ?case by simp
next
  case (snoc e b)
  obtain k v where e: "e = (k, v)" by (cases e)
  have d: "distinct (map fst (obj_assign c b))" using snoc.prems by (rule distinct_assign)
  show ?case unfolding e assign_snoc using assign_update_src[OF d] snoc by simp
qed

lemma assign_normal: "obj_assign a (obj_assign [] b) = obj_assign a b"
  using assign_assign[of "[]" a b] by simp

lemma assign_copy: "distinct (map fst a) \<Longrightarrow> obj_assign [] a = a"
proof (induction a rule: rev_induct)
  case Nil show ?case by simp
next
  case (snoc e a)
  obtain k v where e: "e = (k, v)" by (cases e)
  from snoc.prems e have d: "distinct (map fst a)" and n: "k \<notin> fst ` set a" by auto
  show ?case unfolding e assign_snoc using snoc.IH[OF d] update_fresh[OF n] by simp
qed

lemma map_of_assign: "distinct (map fst b) \<Longrightarrow> map_of (obj_assign a b) = map_of a ++ map_of b"
proof (induction b arbitrary: a)
  case Nil show ?case by simp
next
  case (Cons e b)
  obtain k v where e: "e = (k, v)" by (cases e)
  from Cons.prems e have d: "distinct (map fst b)" and n: "k \<notin> fst ` set b" by auto
  have "map_of b k = None" using n by (simp add: map_of_eq_None_iff)
  then show ?case unfolding e assign_Cons Cons.IH[OF d]
    by (auto simp: update_conv' map_add_def fun_eq_iff split: option.splits)
qed

lemma spread2_assign: "distinct (map fst a) \<Longrightarrow> spread2 a b = obj_assign a b"
  by (simp add: spread2_def assign_copy)

lemma distinct_spread2: "distinct (map fst (spread2 a b))"
  by (simp add: spread2_def distinct_assign)

section \<open>Merge precedence\<close>

lemma foldl_shallowMerge:
  "distinct (map fst acc) \<Longrightarrow>
   foldl (\<lambda>acc e. shallowMerge acc (g e)) acc es = obj_assign acc (contributions g es)"
proof (induction es arbitrary: acc)
  case Nil show ?case by (simp add: contributions_def)
next
  case (Cons e es)
  show ?case
  proof (cases "g e")
    case None
    then show ?thesis using Cons by (simp add: contributions_def shallowMerge_def)
  next
    case (Some s)
    have d: "distinct (map fst (spread2 acc s))" by (rule distinct_spread2)
    have "foldl (\<lambda>acc e. shallowMerge acc (g e)) (spread2 acc s) es =
          obj_assign (spread2 acc s) (contributions g es)" by (rule Cons.IH[OF d])
    then show ?thesis using Some Cons.prems
      by (simp add: contributions_def shallowMerge_def spread2_assign assign_append)
  qed
qed

lemma isMatch_list_all:
  "''css'' \<notin> fst ` set conds \<Longrightarrow>
   isMatch conds p = list_all (\<lambda>(axis, v). normalizeVariantValue v = normalizeVariantValue (prop_get p axis)) conds"
  by (induction conds p rule: isMatch.induct) auto

lemma applyVariant_step_merge:
  "applyVariant_step slot p style e = shallowMerge style (variantContribution slot p e)"
  by (cases e) (auto simp: applyVariant_step_def shallowMerge_def variantContribution_def
      split: option.splits vval.splits)

lemma applyCompound_step_merge:
  "''css'' \<notin> fst ` set (conditions cv) \<Longrightarrow>
   applyCompound_step slot p style cv = shallowMerge style (compoundContribution slot p cv)"
  by (auto simp: applyCompound_step_def shallowMerge_def compoundContribution_def isMatch_list_all
      split: option.splits)

lemma applyVariant_contributions:
  "applyVariant slot vs p = obj_assign [] (contributions (variantContribution slot p) vs)"
  unfolding applyVariant_def applyVariant_step_merge
  by (rule foldl_shallowMerge) simp

lemma foldl_cong_set: "(\<And>a x. x \<in> set xs \<Longrightarrow> f a x = g a x) \<Longrightarrow> foldl f a xs = foldl g a xs"
  by (induction xs arbitrary: a) auto

lemma applyCompound_contributions:
  assumes "\<forall>cv\<in>set cvs. ''css'' \<notin> fst ` set (conditions cv)"
  shows "applyCompound slot cvs p = obj_assign [] (contributions (compoundContribution slot p) cvs)"
proof -
  have "applyCompound slot cvs p = foldl (\<lambda>acc cv. shallowMerge acc (compoundContribution slot p cv)) [] cvs"
    unfolding applyCompound_def using assms
    by (intro foldl_cong_set) (simp add: applyCompound_step_merge)
  also have "\<dots> = obj_assign [] (contributions (compoundContribution slot p) cvs)"
    by (rule foldl_shallowMerge) simp
  finally show ?thesis .
qed

lemma distinct_applyVariant: "distinct (map fst (applyVariant slot vs p))"
  by (simp add: applyVariant_contributions distinct_assign)

lemma distinct_foldl_step:
  "(\<And>a x. distinct (map fst a) \<Longrightarrow> distinct (map fst (f a x))) \<Longrightarrow>
   distinct (map fst a) \<Longrightarrow> distinct (map fst (foldl f a xs))"
  by (induction xs arbitrary: a) auto

lemma distinct_applyCompound: "distinct (map fst (applyCompound slot cvs p))"
  unfolding applyCompound_def
  by (rule distinct_foldl_step)
     (auto simp: applyCompound_step_def distinct_spread2 split: option.splits)

lemma computeSlotStyles_tiers:
  "computeSlotStyles slot b vs cvs p =
   obj_assign (obj_assign (shallowMerge [] (get_opt b slot)) (applyVariant slot vs p)) (applyCompound slot cvs p)"
  by (simp add: computeSlotStyles_def spread3_def shallowMerge_def spread2_def split: option.splits)

lemma computeSlotStyle_spec_flat:
  "computeSlotStyle_spec slot b vs cvs p =
   obj_assign (obj_assign (shallowMerge [] (get_opt b slot)) (contributions (variantContribution slot p) vs))
     (contributions (compoundContribution slot p) cvs)"
proof -
  have d0: "distinct (map fst (shallowMerge [] (get_opt b slot)))"
    by (simp add: shallowMerge_def distinct_spread2 split: option.splits)
  have d1: "distinct (map fst (obj_assign (shallowMerge [] (get_opt b slot)) (contributions (variantContribution slot p) vs)))"
    using d0 by (rule distinct_assign)
  show ?thesis
    by (simp add: computeSlotStyle_spec_def Let_def foldl_shallowMerge[OF d0] foldl_shallowMerge[OF d1])
qed

text \<open>
  Claim C1. For every slot, base, variant table, list of compound variants (none with a
  condition named \<open>css\<close>, which the destructuring of the source excludes) and resolved
  selections, \<open>computeSlotStyles\<close> returns the style map of the specification: \<open>base[slot]\<close>,
  merged with the matching variant styles in the key order of the variant table, merged
  with the \<open>css[slot]\<close> of the matching compound variants in declaration order, with the
  same property order. On a property that several tiers define, the compound tier wins
  over the variant tier, which wins over the base.
\<close>

theorem computeSlotStyles_merge_precedence:
  assumes "\<forall>cv\<in>set cvs. ''css'' \<notin> fst ` set (conditions cv)"
  shows "computeSlotStyles slot b vs cvs p = computeSlotStyle_spec slot b vs cvs p \<and>
         map_of (computeSlotStyles slot b vs cvs p) =
           map_of (shallowMerge [] (get_opt b slot)) ++ map_of (applyVariant slot vs p)
             ++ map_of (applyCompound slot cvs p)"
proof
  show "computeSlotStyles slot b vs cvs p = computeSlotStyle_spec slot b vs cvs p"
    by (simp add: computeSlotStyles_tiers computeSlotStyle_spec_flat applyVariant_contributions
        applyCompound_contributions[OF assms] assign_normal)
  show "map_of (computeSlotStyles slot b vs cvs p) =
          map_of (shallowMerge [] (get_opt b slot)) ++ map_of (applyVariant slot vs p)
            ++ map_of (applyCompound slot cvs p)"
    by (simp add: computeSlotStyles_tiers map_of_assign distinct_applyVariant distinct_applyCompound)
qed

theorem computeSlotStyles_merge_precedence_witness:
  "''css'' \<notin> fst ` set [(''size'', VStr ''lg''), (''square'', VBool True)] \<and>
   computeSlotStyles ''root''
     [(''root'', Some [(''padding'', JNum 16), (''width'', JNum 1)])]
     [(''size'', Some [(''sm'', Some [(''root'', Some [(''padding'', JNum 8)])]),
                       (''lg'', Some [(''root'', Some [(''padding'', JNum 24)])])]),
      (''square'', Some [(''true'', Some [(''root'', Some [(''width'', JNum 48), (''height'', JNum 48)])])])]
     [\<lparr>conditions = [(''size'', VStr ''lg''), (''square'', VBool True)],
       css = Some [(''root'', Some [(''width'', JNum 64), (''height'', JNum 64)])]\<rparr>]
     [(''size'', VStr ''lg''), (''square'', VBool True)]
   = [(''padding'', JNum 24), (''width'', JNum 64), (''height'', JNum 64)]"
  using computeSlotStyles_merge_precedence[of
     "[\<lparr>conditions = [(''size'', VStr ''lg''), (''square'', VBool True)],
       css = Some [(''root'', Some [(''width'', JNum 64), (''height'', JNum 64)])]\<rparr>]"
     "''root''"
     "[(''root'', Some [(''padding'', JNum 16), (''width'', JNum 1)])]"
     "[(''size'', Some [(''sm'', Some [(''root'', Some [(''padding'', JNum 8)])]),
                       (''lg'', Some [(''root'', Some [(''padding'', JNum 24)])])]),
      (''square'', Some [(''true'', Some [(''root'', Some [(''width'', JNum 48), (''height'', JNum 48)])])])]"
     "[(''size'', VStr ''lg''), (''square'', VBool True)]"]
  by (simp add: computeSlotStyle_spec_def shallowMerge_def variantContribution_def
      compoundContribution_def get_opt_def prop_get_def spread2_def obj_assign_def)

section \<open>Expansion replaces in place\<close>

lemma expandUtils_step_entry:
  "expandUtils_step utils acc e = obj_assign acc (expandEntry utils e)"
  by (cases e) (simp add: expandUtils_step_def expandEntry_def assign_Cons split: option.splits)

lemma foldl_expandUtils_step:
  "foldl (expandUtils_step utils) acc s = obj_assign acc (concat (map (expandEntry utils) s))"
  by (induction s arbitrary: acc) (simp_all add: expandUtils_step_entry assign_append)

lemma expandEntry_no_macro:
  "\<forall>k\<in>fst ` set style. utils k = None \<Longrightarrow> concat (map (expandEntry utils) style) = style"
  by (induction style) (auto simp: expandEntry_def)

text \<open>
  Claim C6. Expansion returns the object obtained by replacing, in place, each entry whose
  key names a macro by the properties that the macro returns for the entry's value, and
  assigning the resulting properties from left to right; the other entries are copied.
  Nothing is expanded twice: every key of the result is a key of the replacement of some
  entry, so a key that names a macro is in the result only when a macro returned it.
  A style map with no macro key (and, being an object, no repeated key) is returned
  unchanged, and an absent style map expands to the empty map.
\<close>

theorem expandUtils_replaces_in_place:
  "expandUtils (Some style) utils = obj_assign [] (concat (map (expandEntry utils) style)) \<and>
   (\<forall>k. k \<in> fst ` set (expandUtils (Some style) utils) \<and> utils k \<noteq> None \<longrightarrow>
        (\<exists>k' v' macro. (k', v') \<in> set style \<and> utils k' = Some macro \<and> k \<in> fst ` set (macro v'))) \<and>
   (distinct (map fst style) \<and> (\<forall>k\<in>fst ` set style. utils k = None) \<longrightarrow>
        expandUtils (Some style) utils = style) \<and>
   expandUtils None utils = []"
proof (intro conjI allI impI)
  show flat: "expandUtils (Some style) utils = obj_assign [] (concat (map (expandEntry utils) style))"
    by (simp add: expandUtils_def foldl_expandUtils_step)
  show "expandUtils None utils = []" by (simp add: expandUtils_def)
  show "expandUtils (Some style) utils = style"
    if "distinct (map fst style) \<and> (\<forall>k\<in>fst ` set style. utils k = None)"
    using that by (simp add: flat expandEntry_no_macro assign_copy)
  show "\<exists>k' v' macro. (k', v') \<in> set style \<and> utils k' = Some macro \<and> k \<in> fst ` set (macro v')"
    if h: "k \<in> fst ` set (expandUtils (Some style) utils) \<and> utils k \<noteq> None" for k
  proof -
    from h have "k \<in> fst ` set (concat (map (expandEntry utils) style))"
      by (simp add: flat keys_assign)
    then obtain e where e: "e \<in> set style" "k \<in> fst ` set (expandEntry utils e)" by auto
    obtain k' v' where kv: "e = (k', v')" by (cases e)
    show ?thesis
    proof (cases "utils k'")
      case None
      with e kv have "k = k'" by (simp add: expandEntry_def)
      with None h show ?thesis by simp
    next
      case (Some macro)
      with e kv show ?thesis by (auto simp: expandEntry_def)
    qed
  qed
qed

theorem expandUtils_replaces_in_place_witness:
  "expandUtils (Some [(''color'', JStr ''red''), (''px'', JNum 16), (''margin'', JNum 4)])
     (Map.empty(''px'' \<mapsto> (\<lambda>v. [(''paddingLeft'', v), (''paddingRight'', v)])))
   = [(''color'', JStr ''red''), (''paddingLeft'', JNum 16), (''paddingRight'', JNum 16), (''margin'', JNum 4)] \<and>
   distinct (map fst [(''color'', JStr ''red''), (''margin'', JNum 4)]) \<and>
   expandUtils (Some [(''color'', JStr ''red''), (''margin'', JNum 4)])
     (Map.empty(''px'' \<mapsto> (\<lambda>v. [(''paddingLeft'', v), (''paddingRight'', v)])))
   = [(''color'', JStr ''red''), (''margin'', JNum 4)]"
  using expandUtils_replaces_in_place[of "[(''color'', JStr ''red''), (''px'', JNum 16), (''margin'', JNum 4)]"
          "Map.empty(''px'' \<mapsto> (\<lambda>v. [(''paddingLeft'', v), (''paddingRight'', v)]))"]
        expandUtils_replaces_in_place[of "[(''color'', JStr ''red''), (''margin'', JNum 4)]"
          "Map.empty(''px'' \<mapsto> (\<lambda>v. [(''paddingLeft'', v), (''paddingRight'', v)]))"]
  by (simp add: expandEntry_def obj_assign_def)

section \<open>Token merging\<close>

lemma map_of_assign_other: "k \<notin> fst ` set b \<Longrightarrow> map_of (obj_assign a b) k = map_of a k"
proof (induction b arbitrary: a)
  case Nil show ?case by simp
next
  case (Cons e b)
  obtain k' v where e: "e = (k', v)" by (cases e)
  with Cons.prems have "k \<noteq> k'" "k \<notin> fst ` set b" by auto
  then show ?case unfolding e assign_Cons by (simp add: Cons.IH update_conv')
qed

lemma customTokens_fold:
  "map_of (foldl (\<lambda>acc key. if key \<notin> K then AList.update key (g key) acc else acc) acc0 ks) k =
   (if k \<in> set ks \<and> k \<notin> K then Some (g k) else map_of acc0 k)"
  by (induction ks arbitrary: acc0) (auto simp: update_conv')

lemma map_of_customTokens:
  "map_of (customTokens inp) k =
   (case inp of None \<Rightarrow> None
    | Some t \<Rightarrow> if k \<in> set knownThemeKeys then None else map_of t k)"
proof (cases inp)
  case None
  then show ?thesis by (simp add: customTokens_def)
next
  case (Some t)
  have "k \<notin> fst ` set t \<Longrightarrow> map_of t k = None" by (simp add: map_of_eq_None_iff)
  moreover have "k \<in> fst ` set t \<Longrightarrow> Some (themeField (Some t) k) = map_of t k"
    by (auto simp: themeField_def split: option.splits simp: map_of_eq_None_iff)
  ultimately show ?thesis using Some
    by (auto simp: customTokens_def customTokens_fold)
qed

lemma keys_customTokens: "fst ` set (customTokens inp) \<inter> set knownThemeKeys = {}"
proof -
  have "k \<in> set knownThemeKeys \<Longrightarrow> k \<notin> fst ` set (customTokens inp)" for k
    using map_of_customTokens[of inp k] by (auto simp: map_of_eq_None_iff[symmetric] split: option.splits)
  then show ?thesis by auto
qed

lemma distinct_customTokens: "distinct (map fst (customTokens inp))"
proof -
  have "distinct (map fst (foldl (\<lambda>acc key. if key \<notin> K then AList.update key (g key) acc else acc) acc0 ks))"
    if "distinct (map fst acc0)" for K g ks and acc0 :: "jv obj"
    using that by (induction ks arbitrary: acc0) (auto simp: distinct_update)
  then show ?thesis by (simp add: customTokens_def)
qed

lemma map_of_mergedCategory:
  assumes "distinct (map fst tab)" "distinct (map fst (userTable inp c))"
  shows "map_of (spread2 tab (userTable inp c)) = map_of tab ++ map_of (userTable inp c)"
  using assms by (simp add: spread2_def map_of_assign assign_copy)

lemma resolveTheme_known:
  assumes "defaultTable dt c = Some tab"
  shows "map_of (resolveTheme dt inp) c = Some (JObj (spread2 tab (userTable inp c)))"
proof -
  have known: "c \<in> set knownThemeKeys"
    using assms by (auto simp: defaultTable_def knownThemeKeys_def split: if_splits)
  then have "c \<notin> fst ` set (customTokens inp)" using keys_customTokens[of inp] by auto
  then have "map_of (resolveTheme dt inp) c =
     map_of [(''colors'', JObj (spread2 (palette dt) (userColorsOf inp))),
        (''spacing'', mergedCategory (spacing dt) inp ''spacing''),
        (''fontSizes'', mergedCategory (fontSizes dt) inp ''fontSizes''),
        (''radii'', mergedCategory (radii dt) inp ''radii''),
        (''shadows'', mergedCategory (shadows dt) inp ''shadows''),
        (''zIndex'', mergedCategory (zIndex dt) inp ''zIndex''),
        (''opacity'', mergedCategory (opacity dt) inp ''opacity''),
        (''lineHeights'', mergedCategory (lineHeights dt) inp ''lineHeights''),
        (''fontWeights'', mergedCategory (fontWeights dt) inp ''fontWeights''),
        (''letterSpacing'', mergedCategory (letterSpacing dt) inp ''letterSpacing''),
        (''borderWidths'', mergedCategory (borderWidths dt) inp ''borderWidths''),
        (''durations'', mergedCategory (durations dt) inp ''durations'')] c"
    unfolding resolveTheme_def by (rule map_of_assign_other)
  also have "\<dots> = Some (JObj (spread2 tab (userTable inp c)))"
    using assms by (auto simp: defaultTable_def mergedCategory_def userTable_def split: if_splits)
  finally show ?thesis .
qed

lemma resolveTheme_custom:
  assumes "k \<notin> set knownThemeKeys"
  shows "map_of (resolveTheme dt inp) k = (case inp of None \<Rightarrow> None | Some t \<Rightarrow> map_of t k)"
proof -
  have "map_of (resolveTheme dt inp) k = map_of (customTokens inp) k"
    using assms unfolding resolveTheme_def
    by (simp add: map_of_assign distinct_customTokens map_add_def knownThemeKeys_def split: option.splits)
  then show ?thesis using assms by (simp add: map_of_customTokens split: option.splits)
qed

text \<open>
  Claim C8. For every theme input and every known token category (spacing, fontSizes,
  radii, shadows, zIndex, opacity, lineHeights, fontWeights, letterSpacing, borderWidths,
  durations), the resolved theme binds the category to a table whose entries are those of
  the default table overridden by those of the user's table (both tables being objects:
  no repeated key). For a key outside the known set, the resolved theme has exactly what
  the input has. The default tables are arguments that the function only reads.
\<close>

theorem resolveTheme_merges_tokens:
  "(\<forall>c tab. defaultTable dt c = Some tab \<and> distinct (map fst tab) \<and> distinct (map fst (userTable inp c)) \<longrightarrow>
      (\<exists>merged. map_of (resolveTheme dt inp) c = Some (JObj merged) \<and>
                 map_of merged = map_of tab ++ map_of (userTable inp c))) \<and>
   (\<forall>k. k \<notin> set knownThemeKeys \<longrightarrow>
      map_of (resolveTheme dt inp) k = (case inp of None \<Rightarrow> None | Some t \<Rightarrow> map_of t k))"
  using resolveTheme_known map_of_mergedCategory resolveTheme_custom by blast

theorem resolveTheme_merges_tokens_witness:
  "(\<exists>merged.
      map_of (resolveTheme
        \<lparr>palette = [], spacing = [(''0'', JNum 0), (''1'', JNum 4)], fontSizes = [], radii = [],
          shadows = [], zIndex = [], opacity = [], lineHeights = [], fontWeights = [],
          letterSpacing = [], borderWidths = [], durations = []\<rparr>
        (Some [(''spacing'', JObj [(''xs'', JNum 4), (''1'', JNum 100)]),
               (''breakpoints'', JObj [(''sm'', JNum 640)])])) ''spacing'' = Some (JObj merged) \<and>
      map_of merged ''0'' = Some (JNum 0) \<and> map_of merged ''1'' = Some (JNum 100) \<and>
      map_of merged ''xs'' = Some (JNum 4)) \<and>
   map_of (resolveTheme
        \<lparr>palette = [], spacing = [(''0'', JNum 0), (''1'', JNum 4)], fontSizes = [], radii = [],
          shadows = [], zIndex = [], opacity = [], lineHeights = [], fontWeights = [],
          letterSpacing = [], borderWidths = [], durations = []\<rparr>
        (Some [(''spacing'', JObj [(''xs'', JNum 4), (''1'', JNum 100)]),
               (''breakpoints'', JObj [(''sm'', JNum 640)])])) ''breakpoints''
     = Some (JObj [(''sm'', JNum 640)])"
proof -
  let ?dt = "\<lparr>palette = [], spacing = [(''0'', JNum 0), (''1'', JNum 4)], fontSizes = [], radii = [],
          shadows = [], zIndex = [], opacity = [], lineHeights = [], fontWeights = [],
          letterSpacing = [], borderWidths = [], durations = []\<rparr>"
  let ?inp = "Some [(''spacing'', JObj [(''xs'', JNum 4), (''1'', JNum 100)]),
               (''breakpoints'', JObj [(''sm'', JNum 640)])]"
  have ut: "userTable ?inp ''spacing'' = [(''xs'', JNum 4), (''1'', JNum 100)]"
    by (simp add: userTable_def spreadOf_def themeField_def)
  have h: "defaultTable ?dt ''spacing'' = Some [(''0'', JNum 0), (''1'', JNum 4)] \<and>
           distinct (map fst [(''0'', JNum 0), (''1'', JNum (4::int))]) \<and>
           distinct (map fst (userTable ?inp ''spacing''))"
    by (simp add: defaultTable_def ut)
  from resolveTheme_merges_tokens[of ?dt ?inp] h
  obtain merged where m: "map_of (resolveTheme ?dt ?inp) ''spacing'' = Some (JObj merged)"
      "map_of merged = map_of [(''0'', JNum 0), (''1'', JNum 4)] ++ map_of (userTable ?inp ''spacing'')"
    by blast
  have vals: "map_of merged ''0'' = Some (JNum 0) \<and> map_of merged ''1'' = Some (JNum 100) \<and>
        map_of merged ''xs'' = Some (JNum 4)"
    by (simp add: m(2) ut map_add_def)
  have "''breakpoints'' \<notin> set knownThemeKeys" by (simp add: knownThemeKeys_def)
  with resolveTheme_merges_tokens[of ?dt ?inp]
  have "map_of (resolveTheme ?dt ?inp) ''breakpoints'' = Some (JObj [(''sm'', JNum 640)])"
    by simp
  with m(1) vals show ?thesis by blast
qed

section \<open>The cache key\<close>


lemma cacheKey_loop_concat:
  "cacheKey_loop p ks acc =
   acc @ concat (map (\<lambda>k. k @ '':'' @ js_String (prop_get p k) @ '';'')
                   (filter (\<lambda>k. prop_get p k \<noteq> VUndefined) ks))"
  by (induction ks arbitrary: acc) (simp_all add: Let_def)

lemma dom_labelPart: "dom (labelPart p) = {k \<in> fst ` set p. prop_get p k \<noteq> VUndefined}"
  by (auto simp: labelPart_def definedPart_def prop_get_def dom_def map_of_eq_None_iff
      split: option.splits if_splits dest: weak_map_of_SomeI)

lemma labelPart_String: "prop_get p k \<noteq> VUndefined \<Longrightarrow> labelPart p k = Some (js_String (prop_get p k))"
  by (auto simp: labelPart_def definedPart_def prop_get_def split: option.splits)

lemma defined_keys_sorted:
  assumes "distinct (map fst p)"
  shows "filter (\<lambda>k. prop_get p k \<noteq> VUndefined) (sort (map fst p)) = sorted_list_of_set (dom (labelPart p))"
proof -
  let ?P = "\<lambda>k. prop_get p k \<noteq> VUndefined"
  have d: "distinct (filter ?P (map fst p))" using assms by simp
  have s: "set (filter ?P (map fst p)) = dom (labelPart p)" by (auto simp: dom_labelPart)
  have "filter ?P (sort (map fst p)) = sort (filter ?P (map fst p))" by (simp add: filter_sort)
  also have "\<dots> = sorted_list_of_set (set (filter ?P (map fst p)))"
    unfolding sorted_list_of_set_sort_remdups distinct_remdups_id[OF d] ..
  finally show ?thesis by (simp only: s)
qed

lemma createCacheKey_render:
  assumes "distinct (map fst p)"
  shows "createCacheKey (Some p) = renderKey (labelPart p)"
proof -
  let ?ks = "sorted_list_of_set (dom (labelPart p))"
  have fin: "finite (dom (labelPart p))" by (simp add: dom_labelPart)
  have "map (\<lambda>k. k @ '':'' @ js_String (prop_get p k) @ '';'') ?ks =
        map (\<lambda>k. k @ '':'' @ the (labelPart p k) @ '';'') ?ks"
  proof (rule map_cong[OF refl])
    fix k assume "k \<in> set ?ks"
    then have "k \<in> dom (labelPart p)" using fin by simp
    then have "prop_get p k \<noteq> VUndefined" by (simp add: dom_labelPart)
    then show "k @ '':'' @ js_String (prop_get p k) @ '';'' = k @ '':'' @ the (labelPart p k) @ '';''"
      by (simp add: labelPart_String)
  qed
  then have parts: "concat (map (\<lambda>k. k @ '':'' @ js_String (prop_get p k) @ '';'') ?ks) =
        concat (map (\<lambda>k. k @ '':'' @ the (labelPart p k) @ '';'') ?ks)"
    by (rule arg_cong)
  have loop: "cacheKey_loop p (sort (map fst p)) [] =
              concat (map (\<lambda>k. k @ '':'' @ the (labelPart p k) @ '';'') ?ks)"
    using parts by (simp add: cacheKey_loop_concat defined_keys_sorted[OF assms])
  show ?thesis
  proof (cases "p = []")
    case True
    have "labelPart [] = (\<lambda>k. None)" by (simp add: labelPart_def definedPart_def fun_eq_iff)
    with True show ?thesis by (simp add: createCacheKey_def renderKey_def)
  next
    case False
    then show ?thesis by (simp add: createCacheKey_def renderKey_def loop Let_def)
  qed
qed

lemma definedPart_labelPart: "definedPart p1 = definedPart p2 \<Longrightarrow> labelPart p1 = labelPart p2"
  by (simp add: labelPart_def fun_eq_iff)

section \<open>Resolved selections\<close>





section \<open>The resolver reads labels only\<close>

lemma map_of_label:
  "(case map_of p k of None \<Rightarrow> None | Some v \<Rightarrow> if v = VUndefined then None else Some (js_String v)) = labelPart p k"
  by (simp add: labelPart_def definedPart_def split: option.splits)







section \<open>Hits and misses\<close>



lemma createCacheKey_label_cong:
  assumes "distinct (map fst vp1)" "distinct (map fst vp2)" "labelPart vp1 = labelPart vp2"
  shows "createCacheKey (Some vp1) = createCacheKey (Some vp2)"
  by (simp add: createCacheKey_render assms)




lemma computeStyles_default_path:
  "ov = None \<or> \<not> isFactory d \<Longrightarrow>
   computeStyles d (Some \<lparr>themeOverride = ov, variantProps = vp\<rparr>) st = computeStyles_default d vp st"
  by (auto simp: computeStyles_def isFactory_def split: option.splits styledArg.splits)

lemma computeStyles_override_path:
  "configOrFactory d = Factory f \<Longrightarrow>
   computeStyles d (Some \<lparr>themeOverride = Some ov, variantProps = vp\<rparr>) st = computeStyles_override d f ov vp st"
  by (simp add: computeStyles_def)

lemma default_hit:
  "cache_lookup (instanceCache st (configRef d)) (createCacheKey (Some vp)) = Some r \<Longrightarrow>
   computeStyles_default d vp st = (r, st)"
  by (simp add: computeStyles_default_def)

lemma default_miss:
  "cache_lookup (instanceCache st (configRef d)) (createCacheKey (Some vp)) = None \<Longrightarrow>
   computeStyles_default d vp st =
     (length (heap st),
      st\<lparr>heap := heap st @ [defaultResult d vp],
         instanceCache := (instanceCache st)(configRef d \<mapsto>
            cache_store (instanceCache st (configRef d)) (createCacheKey (Some vp)) (length (heap st)))\<rparr>)"
  by (simp add: computeStyles_default_def alloc_def)

lemma override_hit:
  "cache_lookup (themeOverrideCache st (configRef d) (oid ov)) (createCacheKey (Some vp)) = Some r \<Longrightarrow>
   computeStyles_override d f ov vp st = (r, st)"
  by (simp add: computeStyles_override_def)

lemma override_miss:
  "cache_lookup (themeOverrideCache st (configRef d) (oid ov)) (createCacheKey (Some vp)) = None \<Longrightarrow>
   computeStyles_override d f ov vp st =
     (length (heap st),
      st\<lparr>heap := heap st @ [overrideResult d f ov vp],
         themeOverrideCache := (themeOverrideCache st)(configRef d :=
            (themeOverrideCache st (configRef d))(oid ov \<mapsto>
               cache_store (themeOverrideCache st (configRef d) (oid ov)) (createCacheKey (Some vp)) (length (heap st))))\<rparr>)"
  by (simp add: computeStyles_override_def alloc_def)

lemma cache_store_same: "cache_lookup (Some (cache_store c key r)) key = Some r"
  by (simp add: cache_lookup_def cache_store_def)

lemma cache_store_keeps:
  "cache_lookup c key' = Some r' \<Longrightarrow> cache_lookup c key = None \<Longrightarrow>
   cache_lookup (Some (cache_store c key r)) key' = Some r'"
  by (auto simp: cache_lookup_def cache_store_def split: option.splits)

text \<open>After a call on the default path, its key is in the cache of the declaration, bound
  to the reference that the call returned.\<close>

lemma default_cached_after:
  "computeStyles_default d vp st = (r, st') \<Longrightarrow>
   cache_lookup (instanceCache st' (configRef d)) (createCacheKey (Some vp)) = Some r"
  by (cases "cache_lookup (instanceCache st (configRef d)) (createCacheKey (Some vp))")
     (auto simp: default_miss default_hit cache_store_same)

lemma override_cached_after:
  "computeStyles_override d f ov vp st = (r, st') \<Longrightarrow>
   cache_lookup (themeOverrideCache st' (configRef d) (oid ov)) (createCacheKey (Some vp)) = Some r"
  by (cases "cache_lookup (themeOverrideCache st (configRef d) (oid ov)) (createCacheKey (Some vp))")
     (auto simp: override_miss override_hit cache_store_same)

section \<open>Cache entries persist\<close>

lemma default_keeps_instance:
  assumes "computeStyles_default d vp st = (r, st')"
      and "cache_lookup (instanceCache st i) key = Some x"
  shows "cache_lookup (instanceCache st' i) key = Some x"
proof (cases "cache_lookup (instanceCache st (configRef d)) (createCacheKey (Some vp))")
  case None
  with assms show ?thesis by (auto simp: default_miss cache_store_keeps)
next
  case (Some y)
  with assms show ?thesis by (simp add: default_hit)
qed

lemma default_keeps_override:
  "computeStyles_default d vp st = (r, st') \<Longrightarrow> themeOverrideCache st' = themeOverrideCache st"
  by (cases "cache_lookup (instanceCache st (configRef d)) (createCacheKey (Some vp))")
     (auto simp: default_miss default_hit)

lemma override_keeps_instance:
  "computeStyles_override d f ov vp st = (r, st') \<Longrightarrow> instanceCache st' = instanceCache st"
  by (cases "cache_lookup (themeOverrideCache st (configRef d) (oid ov)) (createCacheKey (Some vp))")
     (auto simp: override_miss override_hit)

lemma override_keeps_override:
  assumes "computeStyles_override d f ov vp st = (r, st')"
      and "cache_lookup (themeOverrideCache st i j) key = Some x"
  shows "cache_lookup (themeOverrideCache st' i j) key = Some x"
proof (cases "cache_lookup (themeOverrideCache st (configRef d) (oid ov)) (createCacheKey (Some vp))")
  case None
  with assms show ?thesis by (auto simp: override_miss cache_store_keeps)
next
  case (Some y)
  with assms show ?thesis by (simp add: override_hit)
qed

lemma computeStyles_cases:
  assumes "computeStyles d props st = (r, st')"
  obtains vp where "computeStyles_default d vp st = (r, st')"
      "\<And>s. computeStyles d props s = computeStyles_default d vp s"
  | f ov vp where "configOrFactory d = Factory f" "computeStyles_override d f ov vp st = (r, st')"
      "\<And>s. computeStyles d props s = computeStyles_override d f ov vp s"
proof -
  let ?vp = "case props of None \<Rightarrow> [] | Some p \<Rightarrow> variantProps p"
  let ?ov = "case props of None \<Rightarrow> None | Some p \<Rightarrow> themeOverride p"
  show ?thesis
  proof (cases ?ov)
    case None
    then have "\<And>s. computeStyles d props s = computeStyles_default d ?vp s"
      by (simp add: computeStyles_def)
    with assms that(1) show ?thesis by metis
  next
    case (Some ov)
    show ?thesis
    proof (cases "configOrFactory d")
      case (Static c)
      with Some have "\<And>s. computeStyles d props s = computeStyles_default d ?vp s"
        by (simp add: computeStyles_def)
      with assms that(1) show ?thesis by metis
    next
      case (Factory f)
      with Some have "\<And>s. computeStyles d props s = computeStyles_override d f ov ?vp s"
        by (simp add: computeStyles_def)
      with assms that(2) Factory show ?thesis by metis
    qed
  qed
qed

lemma computeStyles_keeps_instance:
  assumes "computeStyles d props st = (r, st')" "cache_lookup (instanceCache st i) key = Some x"
  shows "cache_lookup (instanceCache st' i) key = Some x"
  using assms(1)
proof (cases rule: computeStyles_cases)
  case (1 vp) show ?thesis using 1(1) assms(2) by (rule default_keeps_instance)
next
  case (2 f ov vp) then show ?thesis using assms(2) by (simp add: override_keeps_instance)
qed

lemma computeStyles_keeps_override:
  assumes "computeStyles d props st = (r, st')" "cache_lookup (themeOverrideCache st i j) key = Some x"
  shows "cache_lookup (themeOverrideCache st' i j) key = Some x"
  using assms(1)
proof (cases rule: computeStyles_cases)
  case (1 vp) then show ?thesis using assms(2) by (simp add: default_keeps_override)
next
  case (2 f ov vp) show ?thesis using 2(2) assms(2) by (rule override_keeps_override)
qed

text \<open>A call repeated at once is a hit on what the first call stored.\<close>

lemma computeStyles_again:
  assumes "computeStyles d props st = (r, st')"
  shows "computeStyles d props st' = (r, st')"
  using assms
proof (cases rule: computeStyles_cases)
  case (1 vp)
  have "computeStyles_default d vp st' = (r, st')"
    using default_cached_after[OF 1(1)] by (rule default_hit)
  then show ?thesis by (simp add: 1(2))
next
  case (2 f ov vp)
  have "computeStyles_override d f ov vp st' = (r, st')"
    using override_cached_after[OF 2(2)] by (rule override_hit)
  then show ?thesis by (simp add: 2(3))
qed

text \<open>\<open>computeStyles\<close> neither reads nor writes \<open>primitiveCache\<close>.\<close>

lemma default_clear:
  "computeStyles_default d vp (clearStyleCache st) =
     (fst (computeStyles_default d vp st), clearStyleCache (snd (computeStyles_default d vp st)))"
  by (cases "cache_lookup (instanceCache st (configRef d)) (createCacheKey (Some vp))")
     (simp_all add: computeStyles_default_def alloc_def clearStyleCache_def)

lemma override_clear:
  "computeStyles_override d f ov vp (clearStyleCache st) =
     (fst (computeStyles_override d f ov vp st), clearStyleCache (snd (computeStyles_override d f ov vp st)))"
  by (cases "cache_lookup (themeOverrideCache st (configRef d) (oid ov)) (createCacheKey (Some vp))")
     (simp_all add: computeStyles_override_def alloc_def clearStyleCache_def)

lemma computeStyles_clear:
  "computeStyles d props (clearStyleCache st) =
     (fst (computeStyles d props st), clearStyleCache (snd (computeStyles d props st)))"
  by (simp add: computeStyles_def default_clear override_clear Let_def split: option.splits styledArg.splits)

lemma plain_clear:
  "computeStylesPlain pd pprops (clearStyleCache st) =
     (fst (computeStylesPlain pd pprops st), clearStyleCache (snd (computeStylesPlain pd pprops st)))"
  by (cases "cache_lookup (styleCache st (plainRef pd)) (createCacheKey pprops)")
     (simp_all add: computeStylesPlain_def alloc_def clearStyleCache_def Let_def)

lemma plain_frame:
  "computeStylesPlain pd pp st = (r, st') \<Longrightarrow>
   instanceCache st' = instanceCache st \<and> themeOverrideCache st' = themeOverrideCache st \<and>
   nextRef st' = nextRef st \<and> primitiveCache st' = primitiveCache st \<and>
   (\<exists>extra. heap st' = heap st @ extra)"
  by (auto simp: computeStylesPlain_def alloc_def Let_def split: option.splits)

lemma computeStyles_frame:
  "computeStyles d props st = (r, st') \<Longrightarrow>
   nextRef st' = nextRef st \<and> styleCache st' = styleCache st \<and> primitiveCache st' = primitiveCache st \<and>
   (\<exists>extra. heap st' = heap st @ extra)"
  by (auto simp: computeStyles_def computeStyles_default_def computeStyles_override_def alloc_def Let_def
      split: option.splits styledArg.splits)

lemma styled_frame:
  "styled inst arg st = (d, st') \<Longrightarrow>
   configRef d = nextRef st \<and> nextRef st' = Suc (nextRef st) \<and> heap st' = heap st \<and>
   instanceCache st' = instanceCache st \<and> styleCache st' = styleCache st \<and>
   primitiveCache st' = primitiveCache st \<and>
   themeOverrideCache st' = (themeOverrideCache st)(nextRef st := (\<lambda>_. None))"
  by (auto simp: styled_def Let_def)

lemma styledPlain_frame:
  "styledPlain c st = (pd, st') \<Longrightarrow>
   nextRef st' = Suc (nextRef st) \<and> heap st' = heap st \<and>
   instanceCache st' = instanceCache st \<and> themeOverrideCache st' = themeOverrideCache st"
  by (auto simp: styledPlain_def)

text \<open>No operation removes or rebinds an entry of \<open>instanceCache\<close>; none does so in the
  override cache of a declaration that exists.\<close>

lemma step_keeps:
  assumes "sys_step (st, ds) (st', ds')"
  shows "nextRef st \<le> nextRef st' \<and> set ds \<subseteq> set ds' \<and>
         (\<forall>i key x. cache_lookup (instanceCache st i) key = Some x \<longrightarrow>
                     cache_lookup (instanceCache st' i) key = Some x) \<and>
         (\<forall>i j key x. i < nextRef st \<longrightarrow> cache_lookup (themeOverrideCache st i j) key = Some x \<longrightarrow>
                     cache_lookup (themeOverrideCache st' i j) key = Some x)"
  using assms
proof (cases rule: sys_step.cases)
  case (step_styled inst arg d)
  then show ?thesis using styled_frame[of inst arg st d st'] by auto
next
  case (step_call d props r)
  then show ?thesis
    using computeStyles_frame[of d props st r st'] computeStyles_keeps_instance[of d props st r st']
      computeStyles_keeps_override[of d props st r st'] by auto
next
  case (step_styledPlain c pd)
  then show ?thesis using styledPlain_frame[of c st pd st'] by auto
next
  case (step_callPlain pd pprops r)
  then show ?thesis using plain_frame[of pd pprops st r st'] by auto
next
  case step_clear
  then show ?thesis by (simp add: clearStyleCache_def)
qed

lemma steps_keep:
  assumes "sys_step\<^sup>*\<^sup>* (st, ds) (st', ds')"
  shows "nextRef st \<le> nextRef st' \<and> set ds \<subseteq> set ds' \<and>
         (\<forall>i key x. cache_lookup (instanceCache st i) key = Some x \<longrightarrow>
                     cache_lookup (instanceCache st' i) key = Some x) \<and>
         (\<forall>i j key x. i < nextRef st \<longrightarrow> cache_lookup (themeOverrideCache st i j) key = Some x \<longrightarrow>
                     cache_lookup (themeOverrideCache st' i j) key = Some x)"
  using assms
proof (induction "(st, ds)" "(st', ds')" arbitrary: st' ds' rule: rtranclp.induct)
  case rtrancl_refl
  then show ?case by simp
next
  case (rtrancl_into_rtrancl b)
  obtain sm dm where b: "b = (sm, dm)" by (cases b)
  from rtrancl_into_rtrancl(2)[OF b] step_keeps[OF rtrancl_into_rtrancl(3)[unfolded b]]
  show ?case by (auto intro: order_trans)
qed

section \<open>The example, evaluated\<close>

lemma exampleDecl_simps:
  "configRef exampleDecl = 0" "frozenSlots exampleDecl = [''root'']"
  "configOrFactory exampleDecl = Static exampleConfig"
  "declDefaults exampleDecl = [(''size'', VStr ''sm'')]"
  "expandedBase exampleDecl = [(''root'', Some [(''padding'', JNum 16)])]"
  "expandedVariants exampleDecl =
     [(''size'', Some [(''sm'', Some [(''root'', Some [(''padding'', JNum 8)])]),
                       (''lg'', Some [(''root'', Some [(''padding'', JNum 24)])])]),
      (''square'', Some [(''true'', Some [(''root'', Some [(''width'', JNum 48), (''height'', JNum 48)])])])]"
  "frozenCompoundVariants exampleDecl =
     [\<lparr>conditions = [(''size'', VStr ''lg''), (''square'', VBool True)],
       css = Some [(''root'', Some [(''width'', JNum 64), (''height'', JNum 64)])]\<rparr>]"
  by (simp_all add: exampleDecl_def styled_def exampleConfig_def exampleNva_def init_state_def Let_def
      expandBaseUtils_def expandSlotStyles_def expandUtils_def expandUtils_step_def
      expandVariantsUtils_def expandVariantValues_def expandCompoundUtils_def obj_assign_def)

lemma exampleState_simps:
  "heap exampleState = []" "instanceCache exampleState = (\<lambda>_. None)" "nextRef exampleState = 1"
  by (simp_all add: exampleState_def styled_def init_state_def Let_def)

lemma example_not_factory: "\<not> isFactory exampleDecl"
  by (simp add: isFactory_def exampleDecl_simps)

lemma example_first_call:
  "fst (computeStyles exampleDecl (Some \<lparr>themeOverride = None, variantProps = vp\<rparr>) exampleState) = 0"
  by (simp add: computeStyles_def computeStyles_default_def cache_lookup_def exampleState_simps alloc_def)


section \<open>Memoisation\<close>












text \<open>
  Claim C9. \<open>clearStyleCache\<close> empties \<open>primitiveCache\<close> and changes nothing else: the
  caches keyed by the identity of a declaration or of an override, and the result
  objects, stay. A call of \<open>computeStyles\<close> after a clear returns the reference it would
  have returned before it, so a call repeated across a clear returns its first result.
  The function is total and returns nothing.
\<close>

theorem clearStyleCache_frame:
  "primitiveCache (clearStyleCache st) = Map.empty \<and>
   heap (clearStyleCache st) = heap st \<and> nextRef (clearStyleCache st) = nextRef st \<and>
   styleCache (clearStyleCache st) = styleCache st \<and>
   instanceCache (clearStyleCache st) = instanceCache st \<and>
   themeOverrideCache (clearStyleCache st) = themeOverrideCache st \<and>
   computeStyles d props (clearStyleCache st) =
     (fst (computeStyles d props st), clearStyleCache (snd (computeStyles d props st))) \<and>
   computeStylesPlain pd pprops (clearStyleCache st) =
     (fst (computeStylesPlain pd pprops st), clearStyleCache (snd (computeStylesPlain pd pprops st))) \<and>
   (computeStyles d props st = (r, st1) \<longrightarrow> computeStyles d props (clearStyleCache st1) = (r, clearStyleCache st1))"
  using computeStyles_clear[of d props st] plain_clear[of pd pprops st]
    computeStyles_again[of d props st r st1] computeStyles_clear[of d props st1]
  by (simp add: clearStyleCache_def)
theorem clearStyleCache_frame_witness:
  "computeStyles exampleDecl (Some \<lparr>themeOverride = None, variantProps = [(''size'', VStr ''lg'')]\<rparr>)
     (clearStyleCache (snd (computeStyles exampleDecl
        (Some \<lparr>themeOverride = None, variantProps = [(''size'', VStr ''lg'')]\<rparr>) exampleState)))
   = (0, clearStyleCache (snd (computeStyles exampleDecl
        (Some \<lparr>themeOverride = None, variantProps = [(''size'', VStr ''lg'')]\<rparr>) exampleState)))"
proof -
  let ?c1 = "computeStyles exampleDecl (Some \<lparr>themeOverride = None, variantProps = [(''size'', VStr ''lg'')]\<rparr>) exampleState"
  have first: "?c1 = (0, snd ?c1)"
    using example_first_call[of "[(''size'', VStr ''lg'')]"] by (simp add: prod_eq_iff)
  show ?thesis
    using clearStyleCache_frame[where d = exampleDecl
        and props = "Some \<lparr>themeOverride = None, variantProps = [(''size'', VStr ''lg'')]\<rparr>"
        and st = exampleState and r = 0 and ?st1.0 = "snd ?c1"] first
    by simp
qed

section \<open>The invariant of executions\<close>

lemma keys_computeResult: "slotKeys ss (computeResult ss b vs cvs rp)"
proof -
  have "distinct (map fst (foldl (\<lambda>result slot. AList.update slot (g slot) result) acc xs)) \<and>
        fst ` set (foldl (\<lambda>result slot. AList.update slot (g slot) result) acc xs) = fst ` set acc \<union> set xs"
    if "distinct (map fst acc)" for g :: "string \<Rightarrow> styles" and acc xs
    using that by (induction xs arbitrary: acc) (auto simp: distinct_update dom_update)
  from this[of "[]"] show ?thesis by (simp add: slotKeys_def computeResult_def)
qed

lemma cache_store_cases:
  "cache_lookup (Some (cache_store c key r)) key' = Some x \<Longrightarrow>
   (key' = key \<and> x = r) \<or> cache_lookup c key' = Some x"
  by (auto simp: cache_lookup_def cache_store_def split: option.splits if_splits)

text \<open>What a call does to the state: nothing on a hit; on a miss it appends one result
  object with the slots of the declaration and binds its key in one cache.\<close>

lemma computeStyles_effect:
  assumes "computeStyles d props st = (r, st')"
  shows "(st' = st \<and> (\<exists>key. cache_lookup (instanceCache st (configRef d)) key = Some r \<or>
                        (\<exists>j. cache_lookup (themeOverrideCache st (configRef d) j) key = Some r))) \<or>
         (\<exists>key ob. slotKeys (frozenSlots d) ob \<and> r = length (heap st) \<and>
            st' = st\<lparr>heap := heap st @ [ob],
                     instanceCache := (instanceCache st)(configRef d \<mapsto>
                        cache_store (instanceCache st (configRef d)) key r)\<rparr>) \<or>
         (\<exists>j key ob. slotKeys (frozenSlots d) ob \<and> r = length (heap st) \<and>
            st' = st\<lparr>heap := heap st @ [ob],
                     themeOverrideCache := (themeOverrideCache st)(configRef d :=
                        (themeOverrideCache st (configRef d))(j \<mapsto>
                           cache_store (themeOverrideCache st (configRef d) j) key r))\<rparr>)"
  using assms
proof (cases rule: computeStyles_cases)
  case (1 vp)
  show ?thesis
  proof (cases "cache_lookup (instanceCache st (configRef d)) (createCacheKey (Some vp))")
    case None
    have "slotKeys (frozenSlots d) (defaultResult d vp)"
      unfolding defaultResult_def by (rule keys_computeResult)
    with 1(1) None show ?thesis unfolding default_miss[OF None] by blast
  next
    case (Some x)
    with 1(1) show ?thesis unfolding default_hit[OF Some] by blast
  qed
next
  case (2 f ov vp)
  show ?thesis
  proof (cases "cache_lookup (themeOverrideCache st (configRef d) (oid ov)) (createCacheKey (Some vp))")
    case None
    have "slotKeys (frozenSlots d) (overrideResult d f ov vp)"
      unfolding overrideResult_def Let_def by (rule keys_computeResult)
    with 2(2) None show ?thesis unfolding override_miss[OF None] by blast
  next
    case (Some x)
    with 2(2) show ?thesis unfolding override_hit[OF Some] by blast
  qed
qed

lemma wf_sysI:
  assumes "\<And>d. d \<in> set ds \<Longrightarrow> configRef d < nextRef st"
      and "\<And>i. nextRef st \<le> i \<Longrightarrow> instanceCache st i = None"
      and "\<And>d d'. d \<in> set ds \<Longrightarrow> d' \<in> set ds \<Longrightarrow> configRef d = configRef d' \<Longrightarrow> frozenSlots d = frozenSlots d'"
      and "\<And>d key r. d \<in> set ds \<Longrightarrow> cache_lookup (instanceCache st (configRef d)) key = Some r \<Longrightarrow>
             r < length (heap st) \<and> slotKeys (frozenSlots d) (heap st ! r)"
      and "\<And>d j key r. d \<in> set ds \<Longrightarrow> cache_lookup (themeOverrideCache st (configRef d) j) key = Some r \<Longrightarrow>
             r < length (heap st) \<and> slotKeys (frozenSlots d) (heap st ! r)"
  shows "wf_sys (st, ds)"
  unfolding wf_sys_def prod.case
proof (intro conjI ballI allI impI)
  fix d assume "d \<in> set ds" then show "configRef d < nextRef st" by (rule assms(1))
next
  fix i assume "nextRef st \<le> i" then show "instanceCache st i = None" by (rule assms(2))
next
  fix d d' assume "d \<in> set ds" "d' \<in> set ds" "configRef d = configRef d'"
  then show "frozenSlots d = frozenSlots d'" by (rule assms(3))
next
  fix d key r assume h: "d \<in> set ds" "cache_lookup (instanceCache st (configRef d)) key = Some r"
  from assms(4)[OF h] show "r < length (heap st)" "slotKeys (frozenSlots d) (heap st ! r)" by simp_all
next
  fix d j key r assume h: "d \<in> set ds" "cache_lookup (themeOverrideCache st (configRef d) j) key = Some r"
  from assms(5)[OF h] show "r < length (heap st)" "slotKeys (frozenSlots d) (heap st ! r)" by simp_all
qed

lemma wf_sysD:
  assumes "wf_sys (st, ds)"
  shows "d \<in> set ds \<Longrightarrow> configRef d < nextRef st"
    and "nextRef st \<le> i \<Longrightarrow> instanceCache st i = None"
    and "d \<in> set ds \<Longrightarrow> d' \<in> set ds \<Longrightarrow> configRef d = configRef d' \<Longrightarrow> frozenSlots d = frozenSlots d'"
    and "d \<in> set ds \<Longrightarrow> cache_lookup (instanceCache st (configRef d)) key = Some r \<Longrightarrow>
             r < length (heap st) \<and> slotKeys (frozenSlots d) (heap st ! r)"
    and "d \<in> set ds \<Longrightarrow> cache_lookup (themeOverrideCache st (configRef d) j) key = Some r \<Longrightarrow>
             r < length (heap st) \<and> slotKeys (frozenSlots d) (heap st ! r)"
proof -
  note c = assms[unfolded wf_sys_def prod.case]
  note a1 = c[THEN conjunct1]
  note a2 = c[THEN conjunct2, THEN conjunct1]
  note a3 = c[THEN conjunct2, THEN conjunct2, THEN conjunct1]
  note a4 = c[THEN conjunct2, THEN conjunct2, THEN conjunct2, THEN conjunct1]
  note a5 = c[THEN conjunct2, THEN conjunct2, THEN conjunct2, THEN conjunct2]
  show "d \<in> set ds \<Longrightarrow> configRef d < nextRef st" using a1 by (rule bspec)
  show "nextRef st \<le> i \<Longrightarrow> instanceCache st i = None" using a2 by (rule allE) (erule mp)
  show "d \<in> set ds \<Longrightarrow> d' \<in> set ds \<Longrightarrow> configRef d = configRef d' \<Longrightarrow> frozenSlots d = frozenSlots d'"
    using a3 by (metis (no_types))
  show "d \<in> set ds \<Longrightarrow> cache_lookup (instanceCache st (configRef d)) key = Some r \<Longrightarrow>
             r < length (heap st) \<and> slotKeys (frozenSlots d) (heap st ! r)"
    using a4 by (metis (no_types))
  show "d \<in> set ds \<Longrightarrow> cache_lookup (themeOverrideCache st (configRef d) j) key = Some r \<Longrightarrow>
             r < length (heap st) \<and> slotKeys (frozenSlots d) (heap st ! r)"
    using a5 by (metis (no_types))
qed

lemma wf_sys_init: "wf_sys (init_state, [])"
  by (rule wf_sysI) (simp_all add: init_state_def)

lemma wf_sys_styled:
  assumes wf: "wf_sys (st, ds)" and s: "styled inst arg st = (d, st')"
  shows "wf_sys (st', d # ds)"
proof (rule wf_sysI)
  note f = styled_frame[OF s]
  fix x assume "x \<in> set (d # ds)"
  then show "configRef x < nextRef st'" using f wf_sysD(1)[OF wf, of x] by auto
next
  note f = styled_frame[OF s]
  fix i assume "nextRef st' \<le> i"
  then show "instanceCache st' i = None" using f wf_sysD(2)[OF wf, of i] by simp
next
  note f = styled_frame[OF s]
  fix x y assume "x \<in> set (d # ds)" "y \<in> set (d # ds)" "configRef x = configRef y"
  then show "frozenSlots x = frozenSlots y"
    using f wf_sysD(1)[OF wf, of x] wf_sysD(1)[OF wf, of y] wf_sysD(3)[OF wf, of x y] by auto
next
  note f = styled_frame[OF s]
  fix x key r assume x: "x \<in> set (d # ds)" and c: "cache_lookup (instanceCache st' (configRef x)) key = Some r"
  show "r < length (heap st') \<and> slotKeys (frozenSlots x) (heap st' ! r)"
  proof (cases "x = d")
    case True
    then have "instanceCache st' (configRef x) = None" using f wf_sysD(2)[OF wf, of "nextRef st"] by simp
    with c show ?thesis by (simp add: cache_lookup_def)
  next
    case False
    with x have "x \<in> set ds" by simp
    from wf_sysD(4)[OF wf this, of key r] c f show ?thesis by simp
  qed
next
  note f = styled_frame[OF s]
  fix x j key r assume x: "x \<in> set (d # ds)"
    and c: "cache_lookup (themeOverrideCache st' (configRef x) j) key = Some r"
  show "r < length (heap st') \<and> slotKeys (frozenSlots x) (heap st' ! r)"
  proof (cases "configRef x = nextRef st")
    case True
    then have "themeOverrideCache st' (configRef x) j = None" using f by simp
    with c show ?thesis by (simp add: cache_lookup_def)
  next
    case False
    with x f have xin: "x \<in> set ds" by auto
    from False f have "themeOverrideCache st' (configRef x) j = themeOverrideCache st (configRef x) j" by simp
    with wf_sysD(5)[OF wf xin, of j key r] c f show ?thesis by simp
  qed
qed

lemma wf_sys_frame:
  assumes wf: "wf_sys (st, ds)" and n: "nextRef st \<le> nextRef st'"
      and i: "instanceCache st' = instanceCache st" and t: "themeOverrideCache st' = themeOverrideCache st"
      and h: "heap st' = heap st @ extra"
  shows "wf_sys (st', ds)"
proof (rule wf_sysI)
  fix d assume "d \<in> set ds"
  then show "configRef d < nextRef st'" using wf_sysD(1)[OF wf, of d] n by simp
next
  fix k assume "nextRef st' \<le> k"
  then show "instanceCache st' k = None" using wf_sysD(2)[OF wf, of k] n i by simp
next
  fix d d' assume "d \<in> set ds" "d' \<in> set ds" "configRef d = configRef d'"
  then show "frozenSlots d = frozenSlots d'" by (rule wf_sysD(3)[OF wf])
next
  fix d key r assume "d \<in> set ds" "cache_lookup (instanceCache st' (configRef d)) key = Some r"
  then show "r < length (heap st') \<and> slotKeys (frozenSlots d) (heap st' ! r)"
    using wf_sysD(4)[OF wf, of d key r] i h by (simp add: nth_append)
next
  fix d j key r assume "d \<in> set ds" "cache_lookup (themeOverrideCache st' (configRef d) j) key = Some r"
  then show "r < length (heap st') \<and> slotKeys (frozenSlots d) (heap st' ! r)"
    using wf_sysD(5)[OF wf, of d j key r] t h by (simp add: nth_append)
qed

lemma wf_sys_default_miss:
  assumes wf: "wf_sys (st, ds)" and d: "d \<in> set ds" and ob: "slotKeys (frozenSlots d) ob"
      and h: "heap st' = heap st @ [ob]" and n: "nextRef st' = nextRef st"
      and t: "themeOverrideCache st' = themeOverrideCache st"
      and i: "instanceCache st' = (instanceCache st)(configRef d \<mapsto>
                 cache_store (instanceCache st (configRef d)) key (length (heap st)))"
  shows "wf_sys (st', ds)"
proof (rule wf_sysI)
  fix x assume "x \<in> set ds"
  then show "configRef x < nextRef st'" using wf_sysD(1)[OF wf, of x] n by simp
next
  fix k assume "nextRef st' \<le> k"
  then show "instanceCache st' k = None"
    using wf_sysD(2)[OF wf, of k] wf_sysD(1)[OF wf d] n i by simp
next
  fix x y assume "x \<in> set ds" "y \<in> set ds" "configRef x = configRef y"
  then show "frozenSlots x = frozenSlots y" by (rule wf_sysD(3)[OF wf])
next
  fix x key' r
  assume x: "x \<in> set ds" and c: "cache_lookup (instanceCache st' (configRef x)) key' = Some r"
  have old: "cache_lookup (instanceCache st (configRef x)) key' = Some r \<Longrightarrow>
             r < length (heap st') \<and> slotKeys (frozenSlots x) (heap st' ! r)"
    using wf_sysD(4)[OF wf x, of key' r] h by (simp add: nth_append)
  show "r < length (heap st') \<and> slotKeys (frozenSlots x) (heap st' ! r)"
  proof (cases "configRef x = configRef d")
    case True
    then have same: "frozenSlots x = frozenSlots d" using wf_sysD(3)[OF wf x d] by simp
    from c True i
    have "cache_lookup (Some (cache_store (instanceCache st (configRef d)) key (length (heap st)))) key' = Some r"
      by simp
    then have "(key' = key \<and> r = length (heap st)) \<or> cache_lookup (instanceCache st (configRef d)) key' = Some r"
      by (rule cache_store_cases)
    then show ?thesis using old True ob same h by auto
  next
    case False
    with c old i show ?thesis by simp
  qed
next
  fix x j key' r
  assume "x \<in> set ds" and "cache_lookup (themeOverrideCache st' (configRef x) j) key' = Some r"
  then show "r < length (heap st') \<and> slotKeys (frozenSlots x) (heap st' ! r)"
    using wf_sysD(5)[OF wf, of x j key' r] h t by (simp add: nth_append)
qed

lemma wf_sys_override_miss:
  assumes wf: "wf_sys (st, ds)" and d: "d \<in> set ds" and ob: "slotKeys (frozenSlots d) ob"
      and h: "heap st' = heap st @ [ob]" and n: "nextRef st' = nextRef st"
      and i: "instanceCache st' = instanceCache st"
      and t: "themeOverrideCache st' = (themeOverrideCache st)(configRef d :=
                 (themeOverrideCache st (configRef d))(j \<mapsto>
                    cache_store (themeOverrideCache st (configRef d) j) key (length (heap st))))"
  shows "wf_sys (st', ds)"
proof (rule wf_sysI)
  fix x assume "x \<in> set ds"
  then show "configRef x < nextRef st'" using wf_sysD(1)[OF wf, of x] n by simp
next
  fix k assume "nextRef st' \<le> k"
  then show "instanceCache st' k = None" using wf_sysD(2)[OF wf, of k] n i by simp
next
  fix x y assume "x \<in> set ds" "y \<in> set ds" "configRef x = configRef y"
  then show "frozenSlots x = frozenSlots y" by (rule wf_sysD(3)[OF wf])
next
  fix x key' r
  assume "x \<in> set ds" and "cache_lookup (instanceCache st' (configRef x)) key' = Some r"
  then show "r < length (heap st') \<and> slotKeys (frozenSlots x) (heap st' ! r)"
    using wf_sysD(4)[OF wf, of x key' r] h i by (simp add: nth_append)
next
  fix x j' key' r
  assume x: "x \<in> set ds" and c: "cache_lookup (themeOverrideCache st' (configRef x) j') key' = Some r"
  have old: "cache_lookup (themeOverrideCache st (configRef x) j') key' = Some r \<Longrightarrow>
             r < length (heap st') \<and> slotKeys (frozenSlots x) (heap st' ! r)"
    using wf_sysD(5)[OF wf x, of j' key' r] h by (simp add: nth_append)
  show "r < length (heap st') \<and> slotKeys (frozenSlots x) (heap st' ! r)"
  proof (cases "configRef x = configRef d \<and> j' = j")
    case True
    then have same: "frozenSlots x = frozenSlots d" using wf_sysD(3)[OF wf x d] by simp
    from c True t
    have "cache_lookup (Some (cache_store (themeOverrideCache st (configRef d) j) key (length (heap st)))) key' = Some r"
      by simp
    then have "(key' = key \<and> r = length (heap st)) \<or> cache_lookup (themeOverrideCache st (configRef d) j) key' = Some r"
      by (rule cache_store_cases)
    then show ?thesis using old True ob same h by auto
  next
    case False
    with c t have "cache_lookup (themeOverrideCache st (configRef x) j') key' = Some r"
      by (auto split: if_splits)
    then show ?thesis by (rule old)
  qed
qed

lemma wf_sys_call:
  assumes wf: "wf_sys (st, ds)" and d: "d \<in> set ds" and c: "computeStyles d props st = (r, st')"
  shows "wf_sys (st', ds)"
proof -
  from computeStyles_effect[OF c]
  consider "st' = st"
    | key ob where "slotKeys (frozenSlots d) ob"
        "st' = st\<lparr>heap := heap st @ [ob],
                     instanceCache := (instanceCache st)(configRef d \<mapsto>
                        cache_store (instanceCache st (configRef d)) key (length (heap st)))\<rparr>"
    | j key ob where "slotKeys (frozenSlots d) ob"
        "st' = st\<lparr>heap := heap st @ [ob],
                     themeOverrideCache := (themeOverrideCache st)(configRef d :=
                        (themeOverrideCache st (configRef d))(j \<mapsto>
                           cache_store (themeOverrideCache st (configRef d) j) key (length (heap st))))\<rparr>"
    by blast
  then show ?thesis
  proof cases
    case 1 with wf show ?thesis by simp
  next
    case (2 key ob)
    show ?thesis by (rule wf_sys_default_miss[OF wf d 2(1), where key = key]) (simp_all add: 2(2))
  next
    case (3 j key ob)
    show ?thesis by (rule wf_sys_override_miss[OF wf d 3(1), where key = key and j = j]) (simp_all add: 3(2))
  qed
qed

lemma wf_sys_step:
  assumes "wf_sys (st, ds)" "sys_step (st, ds) (st', ds')"
  shows "wf_sys (st', ds')"
  using assms(2)
proof (cases rule: sys_step.cases)
  case (step_styled inst arg d)
  then show ?thesis using wf_sys_styled[OF assms(1)] by simp
next
  case (step_call d props r)
  then show ?thesis using wf_sys_call[OF assms(1)] by simp
next
  case (step_styledPlain c pd)
  note f = styledPlain_frame[OF step_styledPlain(2)]
  have "wf_sys (st', ds)"
    by (rule wf_sys_frame[OF assms(1), where extra = "[]"]) (simp_all add: f)
  then show ?thesis using step_styledPlain(1) by simp
next
  case (step_callPlain pd pprops r)
  from plain_frame[OF step_callPlain(2)] obtain extra where f:
    "nextRef st' = nextRef st" "instanceCache st' = instanceCache st"
    "themeOverrideCache st' = themeOverrideCache st" "heap st' = heap st @ extra" by blast
  have "wf_sys (st', ds)"
    by (rule wf_sys_frame[OF assms(1), where extra = extra]) (simp_all add: f)
  then show ?thesis using step_callPlain(1) by simp
next
  case step_clear
  have "wf_sys (clearStyleCache st, ds)"
    by (rule wf_sys_frame[OF assms(1), where extra = "[]"]) (simp_all add: clearStyleCache_def)
  then show ?thesis using step_clear by simp
qed

lemma wf_sys_steps:
  assumes "sys_step\<^sup>*\<^sup>* c c'" "wf_sys c"
  shows "wf_sys c'"
  using assms
proof (induction rule: rtranclp.induct)
  case (rtrancl_refl a) then show ?case by simp
next
  case (rtrancl_into_rtrancl a b c)
  obtain sb db where b: "b = (sb, db)" by (cases b)
  obtain sc dc where c: "c = (sc, dc)" by (cases c)
  from rtrancl_into_rtrancl show ?case unfolding b c using wf_sys_step by blast
qed

lemma reachable_wf: "reachable c \<Longrightarrow> wf_sys c"
  unfolding reachable_def using wf_sys_init by (rule wf_sys_steps[rotated])

section \<open>One entry per slot\<close>

lemma map_of_computeResult:
  "map_of (computeResult ss b vs cvs rp) slot =
   (if slot \<in> set ss then Some (computeSlotStyles slot b vs cvs rp) else None)"
proof -
  have "map_of (foldl (\<lambda>result slot. AList.update slot (g slot) result) acc xs) slot =
        (if slot \<in> set xs then Some (g slot) else map_of acc slot)"
    for g :: "string \<Rightarrow> styles" and acc xs
    by (induction xs arbitrary: acc) (auto simp: update_conv')
  from this[of _ "[]"] show ?thesis by (simp add: computeResult_def)
qed

lemma computeStyles_cached_after:
  assumes "computeStyles d props st = (r, st')"
  shows "\<exists>key. cache_lookup (instanceCache st' (configRef d)) key = Some r \<or>
               (\<exists>j. cache_lookup (themeOverrideCache st' (configRef d) j) key = Some r)"
  using assms
proof (cases rule: computeStyles_cases)
  case (1 vp)
  from default_cached_after[OF 1(1)] show ?thesis by blast
next
  case (2 f ov vp)
  from override_cached_after[OF 2(2)] show ?thesis by blast
qed

text \<open>
  Claim C10. In every execution, a call of \<open>computeStyles\<close> on a declaration returns a
  reference to a result object whose keys are exactly the declared slots, each once,
  whether the object comes from a cache or is new. In a new object of the default path
  each slot is bound to what \<open>computeSlotStyles\<close> returns for it, which is the empty map
  when the base has no style for the slot and neither the variants nor the compound
  variants contribute.
\<close>

theorem computeStyles_one_entry_per_slot:
  assumes "reachable (st, ds)" "d \<in> set ds" "computeStyles d props st = (r, st')"
  shows "r < length (heap st') \<and> distinct (map fst (heap st' ! r)) \<and>
         fst ` set (heap st' ! r) = set (frozenSlots d) \<and>
         (\<forall>vp. props = Some \<lparr>themeOverride = None, variantProps = vp\<rparr> \<and>
               cache_lookup (instanceCache st (configRef d)) (createCacheKey (Some vp)) = None \<longrightarrow>
               (\<forall>slot\<in>set (frozenSlots d).
                  map_of (heap st' ! r) slot =
                  Some (computeSlotStyles slot (expandedBase d) (expandedVariants d)
                          (frozenCompoundVariants d) (resolveProps (declDefaults d) vp)))) \<and>
         (\<forall>slot rp. get_opt (expandedBase d) slot = None \<and>
               applyVariant slot (expandedVariants d) rp = [] \<and>
               applyCompound slot (frozenCompoundVariants d) rp = [] \<longrightarrow>
               computeSlotStyles slot (expandedBase d) (expandedVariants d) (frozenCompoundVariants d) rp = [])"
proof (intro conjI allI impI)
  have wf: "wf_sys (st', ds)"
    using reachable_wf[OF assms(1)] assms(2,3) by (rule wf_sys_call)
  from computeStyles_cached_after[OF assms(3)] wf_sysD(4)[OF wf assms(2)] wf_sysD(5)[OF wf assms(2)]
  have k: "r < length (heap st') \<and> slotKeys (frozenSlots d) (heap st' ! r)" by blast
  then show "r < length (heap st')" "distinct (map fst (heap st' ! r))"
    "fst ` set (heap st' ! r) = set (frozenSlots d)"
    by (simp_all add: slotKeys_def)
next
  fix vp
  assume h: "props = Some \<lparr>themeOverride = None, variantProps = vp\<rparr> \<and>
             cache_lookup (instanceCache st (configRef d)) (createCacheKey (Some vp)) = None"
  then have "computeStyles d props st = computeStyles_default d vp st"
    by (simp add: computeStyles_default_path)
  with assms(3) h have "r = length (heap st)" "heap st' = heap st @ [defaultResult d vp]"
    by (simp_all add: default_miss)
  then have "heap st' ! r = defaultResult d vp" by simp
  then show "\<forall>slot\<in>set (frozenSlots d).
                  map_of (heap st' ! r) slot =
                  Some (computeSlotStyles slot (expandedBase d) (expandedVariants d)
                          (frozenCompoundVariants d) (resolveProps (declDefaults d) vp))"
    by (simp add: defaultResult_def map_of_computeResult)
next
  fix slot rp
  assume "get_opt (expandedBase d) slot = None \<and>
               applyVariant slot (expandedVariants d) rp = [] \<and>
               applyCompound slot (frozenCompoundVariants d) rp = []"
  then show "computeSlotStyles slot (expandedBase d) (expandedVariants d) (frozenCompoundVariants d) rp = []"
    by (simp add: computeSlotStyles_def spread3_def)
qed

lemma example_reachable: "reachable (exampleState, [exampleDecl])"
proof -
  have "styled exampleNva (Static exampleConfig) init_state = (exampleDecl, exampleState)"
    by (simp add: exampleDecl_def exampleState_def)
  then have "sys_step (init_state, []) (exampleState, [exampleDecl])" by (rule step_styled)
  then show ?thesis unfolding reachable_def by (rule r_into_rtranclp)
qed

theorem computeStyles_one_entry_per_slot_witness:
  "fst ` set (heap (snd (computeStyles exampleDecl
       (Some \<lparr>themeOverride = None, variantProps = [(''size'', VStr ''lg'')]\<rparr>) exampleState)) ! 0) = {''root''} \<and>
   map_of (heap (snd (computeStyles exampleDecl
       (Some \<lparr>themeOverride = None, variantProps = [(''size'', VStr ''lg'')]\<rparr>) exampleState)) ! 0) ''root''
     = Some [(''padding'', JNum 24)]"
proof -
  let ?props = "Some \<lparr>themeOverride = None, variantProps = [(''size'', VStr ''lg'')]\<rparr>"
  let ?c = "computeStyles exampleDecl ?props exampleState"
  have first: "?c = (0, snd ?c)"
    using example_first_call[of "[(''size'', VStr ''lg'')]"] by (simp add: prod_eq_iff)
  have miss: "cache_lookup (instanceCache exampleState (configRef exampleDecl))
                (createCacheKey (Some [(''size'', VStr ''lg'')])) = None"
    by (simp add: exampleState_simps cache_lookup_def)
  have slot: "computeSlotStyles ''root'' (expandedBase exampleDecl) (expandedVariants exampleDecl)
        (frozenCompoundVariants exampleDecl) (resolveProps (declDefaults exampleDecl) [(''size'', VStr ''lg'')])
      = [(''padding'', JNum 24)]"
    by (simp add: exampleDecl_simps computeSlotStyles_def resolveProps_def resolvePropsWith_def
        obj_assign_def applyVariant_def applyVariant_step_def applyCompound_def applyCompound_step_def
        get_opt_def prop_get_def spread2_def spread3_def)
  from computeStyles_one_entry_per_slot[OF example_reachable _ first]
  have k: "distinct (map fst (heap (snd ?c) ! 0))" "fst ` set (heap (snd ?c) ! 0) = set (frozenSlots exampleDecl)"
    and v: "\<forall>slot\<in>set (frozenSlots exampleDecl). map_of (heap (snd ?c) ! 0) slot =
          Some (computeSlotStyles slot (expandedBase exampleDecl) (expandedVariants exampleDecl)
                  (frozenCompoundVariants exampleDecl) (resolveProps (declDefaults exampleDecl) [(''size'', VStr ''lg'')]))"
    using miss by simp_all
  from k have "fst ` set (heap (snd ?c) ! 0) = {''root''}" by (simp add: exampleDecl_simps)
  moreover from v slot have "map_of (heap (snd ?c) ! 0) ''root'' = Some [(''padding'', JNum 24)]"
    by (simp add: exampleDecl_simps)
  ultimately show ?thesis by simp
qed

section \<open>The colour override\<close>

lemma override_other_cell:
  assumes "computeStyles_override d f ov vp st = (r, st')" "j \<noteq> oid ov"
  shows "themeOverrideCache st' (configRef d) j = themeOverrideCache st (configRef d) j"
proof (cases "cache_lookup (themeOverrideCache st (configRef d) (oid ov)) (createCacheKey (Some vp))")
  case None
  with assms show ?thesis by (auto simp: override_miss)
next
  case (Some x)
  with assms show ?thesis by (simp add: override_hit)
qed

lemma overrideResult_theme:
  assumes "distinct (map fst (resolvedTheme (owner d)))"
  shows "\<exists>th. map_of th = (map_of (resolvedTheme (owner d)))(''colors'' \<mapsto> JObj (colors ov)) \<and>
           overrideResult d f ov vp =
             computeResult (frozenSlots d)
               (expandBaseUtils (base (f th)) (inputUtils (owner d)))
               (expandVariantsUtils (variants (f th)) (inputUtils (owner d)))
               (expandCompoundUtils (compoundVariants (f th)) (inputUtils (owner d)))
               (resolvePropsWith (\<lambda>key. key \<noteq> ''theme'')
                  (case defaultVariants (f th) of None \<Rightarrow> [] | Some dv \<Rightarrow> dv) vp)"
proof -
  let ?th = "AList.update ''colors'' (JObj (colors ov)) (obj_assign [] (resolvedTheme (owner d)))"
  have "map_of ?th = (map_of (resolvedTheme (owner d)))(''colors'' \<mapsto> JObj (colors ov))"
    by (simp add: update_conv' assign_copy[OF assms])
  moreover have "overrideResult d f ov vp =
             computeResult (frozenSlots d)
               (expandBaseUtils (base (f ?th)) (inputUtils (owner d)))
               (expandVariantsUtils (variants (f ?th)) (inputUtils (owner d)))
               (expandCompoundUtils (compoundVariants (f ?th)) (inputUtils (owner d)))
               (resolvePropsWith (\<lambda>key. key \<noteq> ''theme'')
                  (case defaultVariants (f ?th) of None \<Rightarrow> [] | Some dv \<Rightarrow> dv) vp)"
    by (simp add: overrideResult_def Let_def)
  ultimately show ?thesis by blast
qed

text \<open>
  Claim C7. Take, in any execution, a declaration made from a factory and a call with a
  colour override. On a miss the call allocates a new result: the factory applied to the
  resolved theme with \<open>colors\<close> bound to the override, expanded and resolved. The result is
  cached under the identity of the override and the selection key: a later call with the
  same override object and a selection with the same defined pairs returns the same
  reference and changes nothing, whatever happens in between. A call with another
  override object that was not used with this selection before allocates a new result
  with a different reference, even when the contents of the two overrides are equal.
\<close>

theorem themeOverride_cached_by_identity:
  assumes "reachable (st, ds)" "d \<in> set ds" "configOrFactory d = Factory f"
      and "distinct (map fst vp)" "distinct (map fst (resolvedTheme (owner d)))"
      and "computeStyles d (Some \<lparr>themeOverride = Some ov, variantProps = vp\<rparr>) st = (r1, st1)"
  shows "(cache_lookup (themeOverrideCache st (configRef d) (oid ov)) (createCacheKey (Some vp)) = None \<longrightarrow>
            r1 = length (heap st) \<and> heap st1 = heap st @ [overrideResult d f ov vp]) \<and>
         (\<exists>th. map_of th = (map_of (resolvedTheme (owner d)))(''colors'' \<mapsto> JObj (colors ov)) \<and>
            overrideResult d f ov vp =
              computeResult (frozenSlots d)
                (expandBaseUtils (base (f th)) (inputUtils (owner d)))
                (expandVariantsUtils (variants (f th)) (inputUtils (owner d)))
                (expandCompoundUtils (compoundVariants (f th)) (inputUtils (owner d)))
                (resolvePropsWith (\<lambda>key. key \<noteq> ''theme'')
                   (case defaultVariants (f th) of None \<Rightarrow> [] | Some dv \<Rightarrow> dv) vp)) \<and>
         (\<forall>st2 ds2 ov' vp'.
            sys_step\<^sup>*\<^sup>* (st1, ds) (st2, ds2) \<and> oid ov' = oid ov \<and>
            distinct (map fst vp') \<and> definedPart vp' = definedPart vp \<longrightarrow>
            computeStyles d (Some \<lparr>themeOverride = Some ov', variantProps = vp'\<rparr>) st2 = (r1, st2)) \<and>
         (\<forall>ov2 r2 st2.
            oid ov2 \<noteq> oid ov \<and>
            cache_lookup (themeOverrideCache st (configRef d) (oid ov2)) (createCacheKey (Some vp)) = None \<and>
            computeStyles d (Some \<lparr>themeOverride = Some ov2, variantProps = vp\<rparr>) st1 = (r2, st2) \<longrightarrow>
            r2 \<noteq> r1 \<and> r2 = length (heap st1) \<and> heap st2 = heap st1 @ [overrideResult d f ov2 vp])"
proof (intro conjI allI impI)
  note path = computeStyles_override_path[OF assms(3)]
  from assms(6) have call: "computeStyles_override d f ov vp st = (r1, st1)" by (simp add: path)
  have wf: "wf_sys (st, ds)" by (rule reachable_wf[OF assms(1)])
  have wf1: "wf_sys (st1, ds)" using wf assms(2,6) by (rule wf_sys_call)
  have cached: "cache_lookup (themeOverrideCache st1 (configRef d) (oid ov)) (createCacheKey (Some vp)) = Some r1"
    using call by (rule override_cached_after)
  have r1: "r1 < length (heap st1)" using wf_sysD(5)[OF wf1 assms(2) cached] by simp
  {
    assume m: "cache_lookup (themeOverrideCache st (configRef d) (oid ov)) (createCacheKey (Some vp)) = None"
    from call[unfolded override_miss[OF m]]
    show "r1 = length (heap st)" "heap st1 = heap st @ [overrideResult d f ov vp]"
      by auto
  }
  show "\<exists>th. map_of th = (map_of (resolvedTheme (owner d)))(''colors'' \<mapsto> JObj (colors ov)) \<and>
            overrideResult d f ov vp =
              computeResult (frozenSlots d)
                (expandBaseUtils (base (f th)) (inputUtils (owner d)))
                (expandVariantsUtils (variants (f th)) (inputUtils (owner d)))
                (expandCompoundUtils (compoundVariants (f th)) (inputUtils (owner d)))
                (resolvePropsWith (\<lambda>key. key \<noteq> ''theme'')
                   (case defaultVariants (f th) of None \<Rightarrow> [] | Some dv \<Rightarrow> dv) vp)"
    by (rule overrideResult_theme[OF assms(5)])
  {
    fix st2 ds2 and ov' :: overrideObj and vp'
    assume h: "sys_step\<^sup>*\<^sup>* (st1, ds) (st2, ds2) \<and> oid ov' = oid ov \<and>
               distinct (map fst vp') \<and> definedPart vp' = definedPart vp"
    have below: "configRef d < nextRef st1" by (rule wf_sysD(1)[OF wf1 assms(2)])
    from h have "labelPart vp' = labelPart vp" by (intro definedPart_labelPart) simp
    with h assms(4) have key: "createCacheKey (Some vp') = createCacheKey (Some vp)"
      by (intro createCacheKey_label_cong) simp_all
    from h steps_keep[of st1 ds st2 ds2] below cached
    have "cache_lookup (themeOverrideCache st2 (configRef d) (oid ov)) (createCacheKey (Some vp)) = Some r1"
      by blast
    with h key have "cache_lookup (themeOverrideCache st2 (configRef d) (oid ov')) (createCacheKey (Some vp')) = Some r1"
      by simp
    then have "computeStyles_override d f ov' vp' st2 = (r1, st2)" by (rule override_hit)
    then show "computeStyles d (Some \<lparr>themeOverride = Some ov', variantProps = vp'\<rparr>) st2 = (r1, st2)"
      by (simp add: path)
  }
  {
    fix ov2 :: overrideObj and r2 st2
    assume h: "oid ov2 \<noteq> oid ov \<and>
            cache_lookup (themeOverrideCache st (configRef d) (oid ov2)) (createCacheKey (Some vp)) = None \<and>
            computeStyles d (Some \<lparr>themeOverride = Some ov2, variantProps = vp\<rparr>) st1 = (r2, st2)"
    then have "themeOverrideCache st1 (configRef d) (oid ov2) = themeOverrideCache st (configRef d) (oid ov2)"
      using override_other_cell[OF call, of "oid ov2"] by simp
    with h have miss: "cache_lookup (themeOverrideCache st1 (configRef d) (oid ov2)) (createCacheKey (Some vp)) = None"
      by simp
    from h have "computeStyles_override d f ov2 vp st1 = (r2, st2)" by (simp add: path)
    from this[unfolded override_miss[OF miss]]
    have eff: "r2 = length (heap st1)" "heap st2 = heap st1 @ [overrideResult d f ov2 vp]"
      by auto
    from eff r1 show "r2 \<noteq> r1" by simp
    from eff show "r2 = length (heap st1)" "heap st2 = heap st1 @ [overrideResult d f ov2 vp]" by simp_all
  }
qed

lemma factoryDecl_simps:
  "configRef factoryDecl = 0" "frozenSlots factoryDecl = [''root'']"
  "configOrFactory factoryDecl = Factory exampleFactory" "owner factoryDecl = exampleNva"
  by (simp_all add: factoryDecl_def styled_def Let_def init_state_def exampleFactory_def)

lemma factoryState_simps:
  "heap factoryState = []" "themeOverrideCache factoryState 0 = (\<lambda>_. None)"
  by (simp_all add: factoryState_def styled_def init_state_def Let_def)

lemma factory_reachable: "reachable (factoryState, [factoryDecl])"
proof -
  have "styled exampleNva (Factory exampleFactory) init_state = (factoryDecl, factoryState)"
    by (simp add: factoryDecl_def factoryState_def)
  then have "sys_step (init_state, []) (factoryState, [factoryDecl])" by (rule step_styled)
  then show ?thesis unfolding reachable_def by (rule r_into_rtranclp)
qed

lemma factory_overrideResult:
  "overrideResult factoryDecl exampleFactory \<lparr>oid = n, colors = [(''primary'', JStr ''#fff'')]\<rparr> [] =
   [(''root'', [(''color'', JStr ''#fff'')])]"
  by (simp add: overrideResult_def factoryDecl_simps exampleNva_def exampleFactory_def Let_def
      obj_assign_def expandBaseUtils_def expandSlotStyles_def expandUtils_def expandUtils_step_def
      expandVariantsUtils_def expandCompoundUtils_def resolvePropsWith_def computeResult_def
      computeSlotStyles_def applyVariant_def applyCompound_def get_opt_def spread3_def)

theorem themeOverride_cached_by_identity_witness:
  "fst (computeStyles factoryDecl
      (Some \<lparr>themeOverride = Some \<lparr>oid = 7, colors = [(''primary'', JStr ''#fff'')]\<rparr>, variantProps = []\<rparr>)
      factoryState) = 0 \<and>
   heap (snd (computeStyles factoryDecl
      (Some \<lparr>themeOverride = Some \<lparr>oid = 7, colors = [(''primary'', JStr ''#fff'')]\<rparr>, variantProps = []\<rparr>)
      factoryState)) = [[(''root'', [(''color'', JStr ''#fff'')])]] \<and>
   fst (computeStyles factoryDecl
      (Some \<lparr>themeOverride = Some \<lparr>oid = 7, colors = [(''primary'', JStr ''#fff'')]\<rparr>, variantProps = []\<rparr>)
      (snd (computeStyles factoryDecl
        (Some \<lparr>themeOverride = Some \<lparr>oid = 7, colors = [(''primary'', JStr ''#fff'')]\<rparr>, variantProps = []\<rparr>)
        factoryState))) = 0 \<and>
   fst (computeStyles factoryDecl
      (Some \<lparr>themeOverride = Some \<lparr>oid = 8, colors = [(''primary'', JStr ''#fff'')]\<rparr>, variantProps = []\<rparr>)
      (snd (computeStyles factoryDecl
        (Some \<lparr>themeOverride = Some \<lparr>oid = 7, colors = [(''primary'', JStr ''#fff'')]\<rparr>, variantProps = []\<rparr>)
        factoryState))) = 1"
proof -
  let ?o7 = "\<lparr>oid = 7, colors = [(''primary'', JStr ''#fff'')]\<rparr>"
  let ?o8 = "\<lparr>oid = 8, colors = [(''primary'', JStr ''#fff'')]\<rparr>"
  let ?c1 = "computeStyles factoryDecl (Some \<lparr>themeOverride = Some ?o7, variantProps = []\<rparr>) factoryState"
  let ?c2 = "computeStyles factoryDecl (Some \<lparr>themeOverride = Some ?o8, variantProps = []\<rparr>) (snd ?c1)"
  have first: "?c1 = (fst ?c1, snd ?c1)" by simp
  have second: "?c2 = (fst ?c2, snd ?c2)" by simp
  have miss7: "cache_lookup (themeOverrideCache factoryState (configRef factoryDecl) (oid ?o7)) (createCacheKey (Some [])) = None"
    and miss8: "cache_lookup (themeOverrideCache factoryState (configRef factoryDecl) (oid ?o8)) (createCacheKey (Some [])) = None"
    by (simp_all add: factoryDecl_simps factoryState_simps cache_lookup_def)
  have wfT: "distinct (map fst (resolvedTheme (owner factoryDecl)))"
    by (simp add: factoryDecl_simps exampleNva_def)
  note T = themeOverride_cached_by_identity[OF factory_reachable _ factoryDecl_simps(3) _ wfT first]
  have a: "fst ?c1 = length (heap factoryState) \<and> heap (snd ?c1) = heap factoryState @ [overrideResult factoryDecl exampleFactory ?o7 []]"
    using T miss7 by simp
  have b: "computeStyles factoryDecl (Some \<lparr>themeOverride = Some ?o7, variantProps = []\<rparr>) (snd ?c1) = (fst ?c1, snd ?c1)"
    using T[THEN conjunct2, THEN conjunct2, THEN conjunct1, rule_format, of "snd ?c1" "[factoryDecl]" ?o7 "[]"] by simp
  have c: "fst ?c2 \<noteq> fst ?c1 \<and> fst ?c2 = length (heap (snd ?c1))"
    using T[THEN conjunct2, THEN conjunct2, THEN conjunct2, rule_format, of ?o8 "fst ?c2" "snd ?c2"] miss8 second
    by simp
  from a b c show ?thesis by (simp add: factoryState_simps factory_overrideResult)
qed

section \<open>Colliding cache keys\<close>

lemma collisionDecl_simps:
  "configRef collisionDecl = 0" "frozenSlots collisionDecl = [''root'']"
  "configOrFactory collisionDecl = Static collisionConfig"
  "declDefaults collisionDecl = []" "expandedBase collisionDecl = []"
  "frozenCompoundVariants collisionDecl = []"
  "expandedVariants collisionDecl =
     [(''a'', Some [(''x'', Some [(''root'', Some [(''padding'', JNum 1)])]),
                    (''x;b:y'', Some [(''root'', Some [(''padding'', JNum 2)])])]),
      (''b'', Some [(''y'', Some [(''root'', Some [(''margin'', JNum 3)])])])]"
  by (simp_all add: collisionDecl_def styled_def collisionConfig_def exampleNva_def init_state_def Let_def
      expandBaseUtils_def expandSlotStyles_def expandUtils_def expandUtils_step_def
      expandVariantsUtils_def expandVariantValues_def expandCompoundUtils_def obj_assign_def)

lemma collisionState_simps:
  "heap collisionState = []" "instanceCache collisionState = (\<lambda>_. None)"
  by (simp_all add: collisionState_def styled_def init_state_def Let_def)

lemma collision_results:
  "defaultResult collisionDecl [(''a'', VStr ''x;b:y'')] = [(''root'', [(''padding'', JNum 2)])]"
  "defaultResult collisionDecl [(''a'', VStr ''x''), (''b'', VStr ''y'')] = [(''root'', [(''padding'', JNum 1), (''margin'', JNum 3)])]"
  by (simp_all add: defaultResult_def collisionDecl_simps computeResult_def computeSlotStyles_def
      resolveProps_def resolvePropsWith_def obj_assign_def applyVariant_def applyVariant_step_def
      applyCompound_def get_opt_def spread2_def spread3_def)

lemma collision_keys:
  "createCacheKey (Some [(''a'', VStr ''x;b:y'')]) = ''a:x;b:y;''"
  "createCacheKey (Some [(''a'', VStr ''x''), (''b'', VStr ''y'')]) = ''a:x;b:y;''"
  by (simp_all add: createCacheKey_def prop_get_def)

text \<open>
  Claim C3, at a failing input. The declaration has an axis \<open>a\<close> with the labels \<open>x\<close> and
  \<open>x;b:y\<close> and an axis \<open>b\<close> with the label \<open>y\<close>. The selections \<open>{a: "x;b:y"}\<close> and
  \<open>{a: "x", b: "y"}\<close> have the same cache key. After a call with the first, a call with
  the second returns the reference of the first result, whose content is not what the
  resolver computes for the second selection.
\<close>

theorem cache_key_collision:
  "createCacheKey (Some [(''a'', VStr ''x;b:y'')]) = createCacheKey (Some [(''a'', VStr ''x''), (''b'', VStr ''y'')]) \<and>
   computeStyles collisionDecl (Some \<lparr>themeOverride = None, variantProps = [(''a'', VStr ''x;b:y'')]\<rparr>)
     collisionState =
     (0, snd (computeStyles collisionDecl
                (Some \<lparr>themeOverride = None, variantProps = [(''a'', VStr ''x;b:y'')]\<rparr>) collisionState)) \<and>
   computeStyles collisionDecl
     (Some \<lparr>themeOverride = None, variantProps = [(''a'', VStr ''x''), (''b'', VStr ''y'')]\<rparr>)
     (snd (computeStyles collisionDecl
             (Some \<lparr>themeOverride = None, variantProps = [(''a'', VStr ''x;b:y'')]\<rparr>) collisionState)) =
     (0, snd (computeStyles collisionDecl
                (Some \<lparr>themeOverride = None, variantProps = [(''a'', VStr ''x;b:y'')]\<rparr>) collisionState)) \<and>
   heap (snd (computeStyles collisionDecl
                (Some \<lparr>themeOverride = None, variantProps = [(''a'', VStr ''x;b:y'')]\<rparr>) collisionState)) ! 0
     = [(''root'', [(''padding'', JNum 2)])] \<and>
   defaultResult collisionDecl [(''a'', VStr ''x''), (''b'', VStr ''y'')]
     = [(''root'', [(''padding'', JNum 1), (''margin'', JNum 3)])]"
proof -
  let ?p1 = "[(''a'', VStr ''x;b:y'')]"
  let ?p2 = "[(''a'', VStr ''x''), (''b'', VStr ''y'')]"
  let ?c1 = "computeStyles collisionDecl (Some \<lparr>themeOverride = None, variantProps = ?p1\<rparr>) collisionState"
  have miss: "cache_lookup (instanceCache collisionState (configRef collisionDecl)) (createCacheKey (Some ?p1)) = None"
    by (simp add: collisionState_simps cache_lookup_def)
  have c1: "?c1 = computeStyles_default collisionDecl ?p1 collisionState"
    by (simp add: computeStyles_def)
  have first: "fst ?c1 = 0" "heap (snd ?c1) = [defaultResult collisionDecl ?p1]"
    unfolding c1 default_miss[OF miss] by (simp_all add: collisionState_simps)
  have cached: "cache_lookup (instanceCache (snd ?c1) (configRef collisionDecl)) (createCacheKey (Some ?p1)) = Some 0"
    using default_cached_after[of collisionDecl ?p1 collisionState "fst ?c1" "snd ?c1"] c1 first(1)
    by simp
  then have "computeStyles_default collisionDecl ?p2 (snd ?c1) = (0, snd ?c1)"
    by (intro default_hit) (simp add: collision_keys)
  then have second: "computeStyles collisionDecl (Some \<lparr>themeOverride = None, variantProps = ?p2\<rparr>) (snd ?c1) = (0, snd ?c1)"
    by (simp add: computeStyles_def)
  have one: "?c1 = (0, snd ?c1)" using first(1) by (simp add: prod_eq_iff)
  show ?thesis
    using one second first(2) by (simp add: collision_keys collision_results)
qed

end
